theory Spec2Isabelle
  imports Main "HOL-Library.Word" "HOL-Library.Sublist"
begin

section \<open>JavaScript strings\<close>

text \<open>
  A JavaScript string is a sequence of 16-bit code units. String literals of the source
  are written with \<open>js\<close>, which maps each ASCII character to its code unit.
\<close>

type_synonym jschar = "16 word"
type_synonym jsstring = "jschar list"

definition js :: "string \<Rightarrow> jsstring" where
  "js s = map (\<lambda>c. of_nat (of_char c :: nat)) s"

text \<open>
  \<open>String.prototype.trim\<close> strips the code units that ECMAScript calls WhiteSpace or
  LineTerminator from both ends.
\<close>

definition isWhiteSpace :: "jschar \<Rightarrow> bool" where
  "isWhiteSpace c \<longleftrightarrow>
     c = 0x09 \<or> c = 0x0A \<or> c = 0x0B \<or> c = 0x0C \<or> c = 0x0D \<or> c = 0x20 \<or> c = 0xA0 \<or>
     c = 0x1680 \<or> (0x2000 \<le> c \<and> c \<le> 0x200A) \<or> c = 0x2028 \<or> c = 0x2029 \<or>
     c = 0x202F \<or> c = 0x205F \<or> c = 0x3000 \<or> c = 0xFEFF"

definition trim :: "jsstring \<Rightarrow> jsstring" where
  "trim s = rev (dropWhile isWhiteSpace (rev (dropWhile isWhiteSpace s)))"

text \<open>
  \<open>Number.prototype.toString\<close> on an integer in the range of \<open>Date.now()\<close>: the decimal
  digits, with a minus sign for a negative value.
\<close>

fun digitsOf :: "nat \<Rightarrow> jsstring" where
  "digitsOf n =
     (if n < 10 then [of_nat (48 + n)] else digitsOf (n div 10) @ [of_nat (48 + n mod 10)])"

declare digitsOf.simps [simp del]

definition numberToString :: "int \<Rightarrow> jsstring" where
  "numberToString i = (if i < 0 then 0x2D # digitsOf (nat (- i)) else digitsOf (nat i))"

section \<open>Data model\<close>

record comment =
  comment_id :: jsstring
  comment_role :: jsstring
  comment_text :: jsstring
  comment_at :: jsstring

record issue =
  issue_id :: jsstring
  title :: jsstring
  description :: jsstring
  category :: jsstring
  status :: jsstring
  comments :: "comment list"
  createdAt :: jsstring
  reporterRole :: jsstring

text \<open>The state of the \<open>App\<close> component: its five \<open>useState\<close> cells.\<close>

record app_state =
  role :: jsstring
  issues :: "issue list"
  filter_status :: jsstring
  selected :: "issue option"
  modalMessage :: "jsstring option"

definition initial_state :: app_state where
  "initial_state =
     \<lparr>role = js ''Citizen'', issues = [], filter_status = js ''all'',
      selected = None, modalMessage = None\<rparr>"

text \<open>
  The clock as an action reads it: \<open>now\<close> is \<open>Date.now()\<close> and \<open>localeString\<close> is
  \<open>new Date().toLocaleString()\<close>.
\<close>

record clock =
  now :: int
  localeString :: jsstring

section \<open>Core actions of \<open>App\<close>\<close>

definition addIssue :: "clock \<Rightarrow> app_state \<Rightarrow> jsstring \<Rightarrow> jsstring \<Rightarrow> jsstring \<Rightarrow> app_state" where
  "addIssue clk st title' description' category' =
     (let newIssue =
        \<lparr>issue_id = numberToString (now clk),
         title = title',
         description = description',
         category = category',
         status = js ''Open'',
         comments = [],
         createdAt = localeString clk,
         reporterRole = role st\<rparr>
      in st\<lparr>issues := newIssue # issues st\<rparr>)"

definition newComment :: "clock \<Rightarrow> app_state \<Rightarrow> jsstring \<Rightarrow> comment" where
  "newComment clk st text =
     \<lparr>comment_id = numberToString (now clk),
      comment_role = role st,
      comment_text = text,
      comment_at = localeString clk\<rparr>"

definition addComment :: "clock \<Rightarrow> app_state \<Rightarrow> jsstring \<Rightarrow> jsstring \<Rightarrow> app_state" where
  "addComment clk st issueId text =
     st\<lparr>issues :=
          map (\<lambda>it. if issue_id it = issueId
                    then it\<lparr>comments := comments it @ [newComment clk st text]\<rparr>
                    else it)
              (issues st)\<rparr>"

definition orGeneral :: "jsstring \<Rightarrow> jsstring" where
  "orGeneral category' = (if category' = [] then js ''General'' else category')"

definition postUpdate :: "clock \<Rightarrow> app_state \<Rightarrow> jsstring \<Rightarrow> jsstring \<Rightarrow> app_state" where
  "postUpdate clk st text category' =
     (let update =
        \<lparr>issue_id = numberToString (now clk),
         title = js ''Broadcast - '' @ orGeneral category',
         description = text,
         category = orGeneral category',
         status = js ''Update'',
         comments = [],
         createdAt = localeString clk,
         reporterRole = js ''Politician''\<rparr>
      in st\<lparr>issues := update # issues st\<rparr>)"

definition changeStatus :: "app_state \<Rightarrow> jsstring \<Rightarrow> jsstring \<Rightarrow> app_state" where
  "changeStatus st issueId status' =
     st\<lparr>issues :=
          map (\<lambda>it. if issue_id it = issueId then it\<lparr>status := status'\<rparr> else it)
              (issues st)\<rparr>"

definition deleteDenied :: jsstring where
  "deleteDenied = js ''Error: Only Admin users are authorized to delete reports.''"

definition deleteIssue :: "app_state \<Rightarrow> jsstring \<Rightarrow> app_state" where
  "deleteIssue st issueId =
     (if role st \<noteq> js ''Admin''
      then st\<lparr>modalMessage := Some deleteDenied\<rparr>
      else st\<lparr>issues := filter (\<lambda>it. issue_id it \<noteq> issueId) (issues st),
              selected := None\<rparr>)"

text \<open>
  The second half of the effect that runs whenever \<open>issues\<close> has changed (the first
  half saves, see \<open>issuesEffect\<close> below): the selected issue is looked up again by id
  (\<open>Array.prototype.find\<close>, the first match).
\<close>

definition refreshSelected :: "app_state \<Rightarrow> app_state" where
  "refreshSelected st =
     (case selected st of
        None \<Rightarrow> st
      | Some sel \<Rightarrow>
          (case find (\<lambda>i. issue_id i = issue_id sel) (issues st) of
             Some updatedSelected \<Rightarrow> st\<lparr>selected := Some updatedSelected\<rparr>
           | None \<Rightarrow> st\<lparr>selected := None\<rparr>))"

section \<open>Derived views\<close>

definition visible :: "app_state \<Rightarrow> issue list" where
  "visible st =
     filter (\<lambda>it. if filter_status st = js ''all'' then True else status it = filter_status st)
            (issues st)"

text \<open>
  The updates list: \<open>issues.filter(...).slice(0, limit)\<close>; the render passes the limit 6.
\<close>

definition recentFeed :: "issue list \<Rightarrow> nat \<Rightarrow> issue list" where
  "recentFeed collection limit =
     take limit (filter (\<lambda>i. status i = js ''Update'' \<or> status i = js ''Open'') collection)"

definition updatesList :: "app_state \<Rightarrow> issue list" where
  "updatesList st = recentFeed (issues st) 6"

section \<open>Event handlers of the form components\<close>

text \<open>\<open>IssueForm\<close>: its local state and \<open>submit\<close>. The form is rendered for a Citizen only.\<close>

record issue_form =
  form_title :: jsstring
  form_description :: jsstring
  form_category :: jsstring

definition submit :: "clock \<Rightarrow> app_state \<Rightarrow> issue_form \<Rightarrow> app_state \<times> issue_form" where
  "submit clk st f =
     (if trim (form_title f) = [] \<or> trim (form_description f) = [] then (st, f)
      else (addIssue clk st (trim (form_title f)) (trim (form_description f)) (form_category f),
            \<lparr>form_title = [], form_description = [], form_category = js ''General''\<rparr>))"

text \<open>
  \<open>IssueDetail\<close>, rendered for the selected issue: the comment form, the status buttons
  and the delete button, with the conditions under which the buttons are rendered.
\<close>

definition isAuthorizedToAct :: "jsstring \<Rightarrow> bool" where
  "isAuthorizedToAct currentRole \<longleftrightarrow>
     currentRole = js ''Moderator'' \<or> currentRole = js ''Politician'' \<or> currentRole = js ''Admin''"

definition isAdmin :: "jsstring \<Rightarrow> bool" where
  "isAdmin currentRole \<longleftrightarrow> currentRole = js ''Admin''"

definition isBroadcast :: "issue \<Rightarrow> bool" where
  "isBroadcast i \<longleftrightarrow> status i = js ''Update''"

definition statusDenied :: "jsstring \<Rightarrow> jsstring" where
  "statusDenied currentRole =
     js ''Only Politician, Moderator, or Admin roles can change the status of a report. Current Role: ''
     @ currentRole"

definition handleStatusChange :: "app_state \<Rightarrow> issue \<Rightarrow> jsstring \<Rightarrow> app_state" where
  "handleStatusChange st i status' =
     (if \<not> isAuthorizedToAct (role st)
      then st\<lparr>modalMessage := Some (statusDenied (role st))\<rparr>
      else changeStatus st (issue_id i) status')"

definition handleDelete :: "app_state \<Rightarrow> issue \<Rightarrow> app_state" where
  "handleDelete st i =
     (if \<not> isAdmin (role st)
      then st\<lparr>modalMessage := Some deleteDenied\<rparr>
      else deleteIssue st (issue_id i))"

definition commentSubmit :: "clock \<Rightarrow> app_state \<Rightarrow> issue \<Rightarrow> jsstring \<Rightarrow> app_state \<times> jsstring" where
  "commentSubmit clk st i text =
     (if trim text = [] then (st, text)
      else (addComment clk st (issue_id i) (trim text), []))"

text \<open>
  A click on one of the two status buttons, which pass \<open>'In Progress'\<close> and
  \<open>'Resolved'\<close>. They are rendered only when \<open>isAuthorizedToAct && !isBroadcast\<close> holds
  for the selected issue, and each is disabled while the issue already has its status;
  otherwise there is nothing to click and the state stays as it is. The delete button is
  rendered for an Admin only.
\<close>

definition statusButton :: "app_state \<Rightarrow> jsstring \<Rightarrow> app_state" where
  "statusButton st status' =
     (case selected st of
        None \<Rightarrow> st
      | Some i \<Rightarrow>
          if isAuthorizedToAct (role st) \<and> \<not> isBroadcast i \<and> status i \<noteq> status'
          then handleStatusChange st i status'
          else st)"

definition markInProgress :: "app_state \<Rightarrow> app_state" where
  "markInProgress st = statusButton st (js ''In Progress'')"

definition markResolved :: "app_state \<Rightarrow> app_state" where
  "markResolved st = statusButton st (js ''Resolved'')"

definition deleteButton :: "app_state \<Rightarrow> app_state" where
  "deleteButton st =
     (case selected st of
        None \<Rightarrow> st
      | Some i \<Rightarrow> if isAdmin (role st) then handleDelete st i else st)"

text \<open>\<open>Broadcast\<close>: its local state and \<open>send\<close>.\<close>

record broadcast_form =
  msg :: jsstring
  broadcast_category :: jsstring

definition broadcastDenied :: "jsstring \<Rightarrow> jsstring" where
  "broadcastDenied currentRole =
     js ''Access Denied: Only the Politician role can post public broadcasts. Current Role: ''
     @ currentRole"

definition send :: "clock \<Rightarrow> app_state \<Rightarrow> broadcast_form \<Rightarrow> app_state \<times> broadcast_form" where
  "send clk st b =
     (if role st \<noteq> js ''Politician''
      then (st\<lparr>modalMessage := Some (broadcastDenied (role st))\<rparr>, b)
      else if trim (msg b) = [] then (st, b)
      else (postUpdate clk st (trim (msg b)) (broadcast_category b),
            \<lparr>msg = [], broadcast_category = js ''General''\<rparr>))"

section \<open>JSON values, \<open>JSON.stringify\<close> and \<open>JSON.parse\<close>\<close>

text \<open>
  The two built-ins that the persistence effects call, after ECMA-404 and the ECMAScript
  definition of \<open>JSON\<close>. A value is kept as its syntax tree: an object is the list of
  its members in order, and a number is kept as its lexeme (no field of an issue is a
  number, so no number is ever computed with).
\<close>

datatype json =
    JNull
  | JBool bool
  | JNumber jsstring
  | JString jsstring
  | JArray "json list"
  | JObject "(jsstring \<times> json) list"

subsection \<open>\<open>JSON.stringify\<close>\<close>

text \<open>
  Without an indent argument the text has no whitespace. \<open>quoteChars\<close> is
  \<open>QuoteJSONString\<close>: the seven short escapes, a backslash with u and four lower-case hex
  digits for the other code units below U+0020 and for a surrogate that is not part of a
  pair, and every other code unit as it is.
\<close>

definition hexDigit :: "nat \<Rightarrow> jschar" where
  "hexDigit n = (if n < 10 then of_nat (48 + n) else of_nat (87 + n))"

definition unicodeEscape :: "jschar \<Rightarrow> jsstring" where
  "unicodeEscape c =
     [0x5C, 0x75, hexDigit (unat c div 4096), hexDigit (unat c div 256 mod 16),
      hexDigit (unat c div 16 mod 16), hexDigit (unat c mod 16)]"

definition isHighSurrogate :: "jschar \<Rightarrow> bool" where
  "isHighSurrogate c \<longleftrightarrow> 0xD800 \<le> c \<and> c \<le> 0xDBFF"

definition isLowSurrogate :: "jschar \<Rightarrow> bool" where
  "isLowSurrogate c \<longleftrightarrow> 0xDC00 \<le> c \<and> c \<le> 0xDFFF"

definition quoteUnit :: "jschar \<Rightarrow> jsstring" where
  "quoteUnit c =
     (if c = 0x08 then [0x5C, 0x62]
      else if c = 0x09 then [0x5C, 0x74]
      else if c = 0x0A then [0x5C, 0x6E]
      else if c = 0x0C then [0x5C, 0x66]
      else if c = 0x0D then [0x5C, 0x72]
      else if c = 0x22 then [0x5C, 0x22]
      else if c = 0x5C then [0x5C, 0x5C]
      else if c < 0x20 \<or> isHighSurrogate c \<or> isLowSurrogate c then unicodeEscape c
      else [c])"

fun quoteChars :: "jsstring \<Rightarrow> jsstring" where
  "quoteChars [] = []"
| "quoteChars [c] = quoteUnit c"
| "quoteChars (c # d # cs) =
     (if isHighSurrogate c \<and> isLowSurrogate d then c # d # quoteChars cs
      else quoteUnit c @ quoteChars (d # cs))"

definition quoteJSONString :: "jsstring \<Rightarrow> jsstring" where
  "quoteJSONString s = 0x22 # quoteChars s @ [0x22]"

fun joinWith :: "jschar \<Rightarrow> jsstring list \<Rightarrow> jsstring" where
  "joinWith sep [] = []"
| "joinWith sep [x] = x"
| "joinWith sep (x # y # ys) = x @ sep # joinWith sep (y # ys)"

fun stringify :: "json \<Rightarrow> jsstring" where
  "stringify JNull = js ''null''"
| "stringify (JBool b) = (if b then js ''true'' else js ''false'')"
| "stringify (JNumber n) = n"
| "stringify (JString s) = quoteJSONString s"
| "stringify (JArray vs) = 0x5B # joinWith 0x2C (map stringify vs) @ [0x5D]"
| "stringify (JObject ms) =
     0x7B # joinWith 0x2C (map (\<lambda>m. quoteJSONString (fst m) @ 0x3A # stringify (snd m)) ms) @ [0x7D]"

subsection \<open>\<open>JSON.parse\<close>\<close>

text \<open>
  A recursive-descent parser of the JSON grammar. \<open>parseChars\<close> reads a string after
  its opening quote, \<open>parseNumber\<close> a number; \<open>parseValue\<close>, \<open>parseElements\<close> and
  \<open>parseMembers\<close> take fuel, one unit for each call. Every call that goes one level
  deeper has consumed a character first, so \<open>JSON_parse\<close> starts with as much fuel as
  the text is long (more fuel never changes the result, see \<open>parseValue_fuel_independent\<close>
  below). \<open>None\<close> is the \<open>SyntaxError\<close> that \<open>JSON.parse\<close> throws.
\<close>

definition isJsonSpace :: "jschar \<Rightarrow> bool" where
  "isJsonSpace c \<longleftrightarrow> c = 0x20 \<or> c = 0x09 \<or> c = 0x0A \<or> c = 0x0D"

definition skipWs :: "jsstring \<Rightarrow> jsstring" where
  "skipWs s = dropWhile isJsonSpace s"

definition unhex :: "jschar \<Rightarrow> nat option" where
  "unhex c =
     (if 0x30 \<le> c \<and> c \<le> 0x39 then Some (unat c - 48)
      else if 0x61 \<le> c \<and> c \<le> 0x66 then Some (unat c - 87)
      else if 0x41 \<le> c \<and> c \<le> 0x46 then Some (unat c - 55)
      else None)"

definition unhex4 :: "jschar \<Rightarrow> jschar \<Rightarrow> jschar \<Rightarrow> jschar \<Rightarrow> jschar option" where
  "unhex4 a b c d =
     (case (unhex a, unhex b, unhex c, unhex d) of
        (Some h3, Some h2, Some h1, Some h0) \<Rightarrow> Some (of_nat (((h3 * 16 + h2) * 16 + h1) * 16 + h0))
      | _ \<Rightarrow> None)"

definition unescape :: "jschar \<Rightarrow> jschar option" where
  "unescape e =
     (if e = 0x22 then Some 0x22
      else if e = 0x5C then Some 0x5C
      else if e = 0x2F then Some 0x2F
      else if e = 0x62 then Some 0x08
      else if e = 0x66 then Some 0x0C
      else if e = 0x6E then Some 0x0A
      else if e = 0x72 then Some 0x0D
      else if e = 0x74 then Some 0x09
      else None)"

definition consChar :: "jschar \<Rightarrow> (jsstring \<times> jsstring) option \<Rightarrow> (jsstring \<times> jsstring) option" where
  "consChar c r = (case r of None \<Rightarrow> None | Some (s, rest) \<Rightarrow> Some (c # s, rest))"

fun parseChars :: "jsstring \<Rightarrow> (jsstring \<times> jsstring) option" where
  "parseChars [] = None"
| "parseChars (c # cs) =
     (if c = 0x22 then Some ([], cs)
      else if c = 0x5C then
        (case cs of
           [] \<Rightarrow> None
         | e # r \<Rightarrow>
             if e = 0x75 then
               (case r of
                  a # b # c' # d # r' \<Rightarrow>
                    (case unhex4 a b c' d of
                       None \<Rightarrow> None
                     | Some u \<Rightarrow> consChar u (parseChars r'))
                | _ \<Rightarrow> None)
             else
               (case unescape e of
                  None \<Rightarrow> None
                | Some u \<Rightarrow> consChar u (parseChars r)))
      else if c < 0x20 then None
      else consChar c (parseChars cs))"

definition isDigit :: "jschar \<Rightarrow> bool" where
  "isDigit c \<longleftrightarrow> 0x30 \<le> c \<and> c \<le> 0x39"

definition parseIntegerPart :: "jsstring \<Rightarrow> (jsstring \<times> jsstring) option" where
  "parseIntegerPart s =
     (case s of
        [] \<Rightarrow> None
      | c # r \<Rightarrow>
          if c = 0x30 then Some ([c], r)
          else if isDigit c then Some (c # takeWhile isDigit r, dropWhile isDigit r)
          else None)"

definition parseDigits :: "jsstring \<Rightarrow> (jsstring \<times> jsstring) option" where
  "parseDigits s =
     (if takeWhile isDigit s = [] then None else Some (takeWhile isDigit s, dropWhile isDigit s))"

definition parseFrac :: "jsstring \<Rightarrow> (jsstring \<times> jsstring) option" where
  "parseFrac s =
     (case s of
        c # r \<Rightarrow>
          if c = 0x2E then
            (case parseDigits r of None \<Rightarrow> None | Some (ds, r') \<Rightarrow> Some (c # ds, r'))
          else Some ([], s)
      | [] \<Rightarrow> Some ([], s))"

definition parseExp :: "jsstring \<Rightarrow> (jsstring \<times> jsstring) option" where
  "parseExp s =
     (case s of
        c # r \<Rightarrow>
          if c = 0x65 \<or> c = 0x45 then
            (case r of
               g # r' \<Rightarrow>
                 if g = 0x2B \<or> g = 0x2D then
                   (case parseDigits r' of None \<Rightarrow> None | Some (ds, r'') \<Rightarrow> Some (c # g # ds, r''))
                 else
                   (case parseDigits r of None \<Rightarrow> None | Some (ds, r'') \<Rightarrow> Some (c # ds, r''))
             | [] \<Rightarrow> None)
          else Some ([], s)
      | [] \<Rightarrow> Some ([], s))"

definition parseNumber :: "jsstring \<Rightarrow> (jsstring \<times> jsstring) option" where
  "parseNumber s =
     (let (sign, s0) = (case s of c # r \<Rightarrow> if c = 0x2D then ([c], r) else ([], s) | [] \<Rightarrow> ([], s))
      in case parseIntegerPart s0 of
           None \<Rightarrow> None
         | Some (i, s1) \<Rightarrow>
             (case parseFrac s1 of
                None \<Rightarrow> None
              | Some (f, s2) \<Rightarrow>
                  (case parseExp s2 of
                     None \<Rightarrow> None
                   | Some (e, s3) \<Rightarrow> Some (sign @ i @ f @ e, s3))))"

fun stripPrefix :: "jsstring \<Rightarrow> jsstring \<Rightarrow> jsstring option" where
  "stripPrefix [] ys = Some ys"
| "stripPrefix (x # xs) [] = None"
| "stripPrefix (x # xs) (y # ys) = (if x = y then stripPrefix xs ys else None)"

definition parseLiteral :: "string \<Rightarrow> json \<Rightarrow> jsstring \<Rightarrow> (json \<times> jsstring) option" where
  "parseLiteral word v s = (case stripPrefix (js word) s of None \<Rightarrow> None | Some r \<Rightarrow> Some (v, r))"

fun parseValue :: "nat \<Rightarrow> jsstring \<Rightarrow> (json \<times> jsstring) option"
  and parseElements :: "nat \<Rightarrow> jsstring \<Rightarrow> (json list \<times> jsstring) option"
  and parseMembers :: "nat \<Rightarrow> jsstring \<Rightarrow> ((jsstring \<times> json) list \<times> jsstring) option"
where
  "parseValue 0 s = None"
| "parseValue (Suc n) s =
     (case skipWs s of
        [] \<Rightarrow> None
      | c # r \<Rightarrow>
          if c = 0x22 then
            (case parseChars r of None \<Rightarrow> None | Some (t, r') \<Rightarrow> Some (JString t, r'))
          else if c = 0x5B then
            (case skipWs r of
               [] \<Rightarrow> None
             | d # r' \<Rightarrow>
                 if d = 0x5D then Some (JArray [], r')
                 else (case parseElements n r of
                         None \<Rightarrow> None
                       | Some (vs, r'') \<Rightarrow> Some (JArray vs, r'')))
          else if c = 0x7B then
            (case skipWs r of
               [] \<Rightarrow> None
             | d # r' \<Rightarrow>
                 if d = 0x7D then Some (JObject [], r')
                 else (case parseMembers n r of
                         None \<Rightarrow> None
                       | Some (ms, r'') \<Rightarrow> Some (JObject ms, r'')))
          else if c = 0x74 then parseLiteral ''true'' (JBool True) (c # r)
          else if c = 0x66 then parseLiteral ''false'' (JBool False) (c # r)
          else if c = 0x6E then parseLiteral ''null'' JNull (c # r)
          else (case parseNumber (c # r) of
                  None \<Rightarrow> None
                | Some (lexeme, r') \<Rightarrow> Some (JNumber lexeme, r')))"
| "parseElements 0 s = None"
| "parseElements (Suc n) s =
     (case parseValue n s of
        None \<Rightarrow> None
      | Some (v, r) \<Rightarrow>
          (case skipWs r of
             [] \<Rightarrow> None
           | c # r' \<Rightarrow>
               if c = 0x2C then
                 (case parseElements n r' of
                    None \<Rightarrow> None
                  | Some (vs, r'') \<Rightarrow> Some (v # vs, r''))
               else if c = 0x5D then Some ([v], r')
               else None))"
| "parseMembers 0 s = None"
| "parseMembers (Suc n) s =
     (case skipWs s of
        [] \<Rightarrow> None
      | q # r \<Rightarrow>
          if q = 0x22 then
            (case parseChars r of
               None \<Rightarrow> None
             | Some (k, r1) \<Rightarrow>
                 (case skipWs r1 of
                    [] \<Rightarrow> None
                  | colon # r2 \<Rightarrow>
                      if colon = 0x3A then
                        (case parseValue n r2 of
                           None \<Rightarrow> None
                         | Some (v, r3) \<Rightarrow>
                             (case skipWs r3 of
                                [] \<Rightarrow> None
                              | c # r4 \<Rightarrow>
                                  if c = 0x2C then
                                    (case parseMembers n r4 of
                                       None \<Rightarrow> None
                                     | Some (ms, r5) \<Rightarrow> Some ((k, v) # ms, r5))
                                  else if c = 0x7D then Some ([(k, v)], r4)
                                  else None))
                      else None))
          else None)"

definition JSON_parse :: "jsstring \<Rightarrow> json option" where
  "JSON_parse s =
     (case parseValue (length s) s of
        None \<Rightarrow> None
      | Some (v, r) \<Rightarrow> if skipWs r = [] then Some v else None)"

subsection \<open>Measures used in the proofs\<close>

text \<open>
  \<open>cost\<close> bounds the fuel that \<open>parseValue\<close> needs for the text of a value;
  \<open>numberFree\<close> holds for the values without numbers, such as a collection of issues.
\<close>

fun cost :: "json \<Rightarrow> nat" where
  "cost (JArray vs) = Suc (sum_list (map (\<lambda>v. Suc (cost v)) vs))"
| "cost (JObject ms) = Suc (sum_list (map (\<lambda>m. Suc (cost (snd m))) ms))"
| "cost v = 1"

fun numberFree :: "json \<Rightarrow> bool" where
  "numberFree (JNumber n) = False"
| "numberFree (JArray vs) = list_all numberFree vs"
| "numberFree (JObject ms) = list_all (\<lambda>m. numberFree (snd m)) ms"
| "numberFree v = True"

definition valueStart :: "jschar \<Rightarrow> bool" where
  "valueStart c \<longleftrightarrow> c = 0x22 \<or> c = 0x5B \<or> c = 0x7B \<or> c = 0x74 \<or> c = 0x66 \<or> c = 0x6E"

declare parseChars.simps [simp del]
declare parseValue.simps [simp del] parseElements.simps [simp del] parseMembers.simps [simp del]

section \<open>Persistence\<close>

text \<open>
  The object that the code builds for a comment and for an issue, as a JSON value: the
  properties in the order of the object literal. \<open>issuesFromJson\<close> reads such a value
  back by property name, as the components do (\<open>it.id\<close>, \<open>it.comments\<close>, ...); of
  repeated members the last one counts.
\<close>

definition commentToJson :: "comment \<Rightarrow> json" where
  "commentToJson c =
     JObject [(js ''id'', JString (comment_id c)), (js ''role'', JString (comment_role c)),
              (js ''text'', JString (comment_text c)), (js ''at'', JString (comment_at c))]"

definition issueToJson :: "issue \<Rightarrow> json" where
  "issueToJson i =
     JObject [(js ''id'', JString (issue_id i)), (js ''title'', JString (title i)),
              (js ''description'', JString (description i)), (js ''category'', JString (category i)),
              (js ''status'', JString (status i)),
              (js ''comments'', JArray (map commentToJson (comments i))),
              (js ''createdAt'', JString (createdAt i)),
              (js ''reporterRole'', JString (reporterRole i))]"

definition issuesToJson :: "issue list \<Rightarrow> json" where
  "issuesToJson collection = JArray (map issueToJson collection)"

definition property :: "string \<Rightarrow> json \<Rightarrow> json option" where
  "property name v = (case v of JObject ms \<Rightarrow> map_of (rev ms) (js name) | _ \<Rightarrow> None)"

definition stringProperty :: "string \<Rightarrow> json \<Rightarrow> jsstring option" where
  "stringProperty name v = (case property name v of Some (JString s) \<Rightarrow> Some s | _ \<Rightarrow> None)"

definition commentFromJson :: "json \<Rightarrow> comment option" where
  "commentFromJson v =
     (case stringProperty ''id'' v of None \<Rightarrow> None | Some i \<Rightarrow>
      case stringProperty ''role'' v of None \<Rightarrow> None | Some r \<Rightarrow>
      case stringProperty ''text'' v of None \<Rightarrow> None | Some t \<Rightarrow>
      case stringProperty ''at'' v of None \<Rightarrow> None | Some a \<Rightarrow>
        Some \<lparr>comment_id = i, comment_role = r, comment_text = t, comment_at = a\<rparr>)"

definition commentsFromJson :: "json \<Rightarrow> comment list option" where
  "commentsFromJson v = (case v of JArray cs \<Rightarrow> those (map commentFromJson cs) | _ \<Rightarrow> None)"

definition issueFromJson :: "json \<Rightarrow> issue option" where
  "issueFromJson v =
     (case stringProperty ''id'' v of None \<Rightarrow> None | Some i \<Rightarrow>
      case stringProperty ''title'' v of None \<Rightarrow> None | Some t \<Rightarrow>
      case stringProperty ''description'' v of None \<Rightarrow> None | Some d \<Rightarrow>
      case stringProperty ''category'' v of None \<Rightarrow> None | Some c \<Rightarrow>
      case stringProperty ''status'' v of None \<Rightarrow> None | Some s \<Rightarrow>
      case property ''comments'' v of None \<Rightarrow> None | Some cv \<Rightarrow>
      case commentsFromJson cv of None \<Rightarrow> None | Some cs \<Rightarrow>
      case stringProperty ''createdAt'' v of None \<Rightarrow> None | Some a \<Rightarrow>
      case stringProperty ''reporterRole'' v of None \<Rightarrow> None | Some r \<Rightarrow>
        Some \<lparr>issue_id = i, title = t, description = d, category = c, status = s,
              comments = cs, createdAt = a, reporterRole = r\<rparr>)"

definition issuesFromJson :: "json \<Rightarrow> issue list option" where
  "issuesFromJson v = (case v of JArray vs \<Rightarrow> those (map issueFromJson vs) | _ \<Rightarrow> None)"

text \<open>
  \<open>localStorage\<close> is a map from keys to texts. \<open>load\<close> is the effect that runs on mount:
  \<open>if (saved) setIssues(JSON.parse(saved))\<close>, where the empty text is falsy. Its
  outcome is the exception, no call of \<open>setIssues\<close>, or the value given to
  \<open>setIssues\<close>. \<open>save\<close> is the first statement of the effect on \<open>issues\<close>.
\<close>

type_synonym storage = "jsstring \<rightharpoonup> jsstring"

definition storageKey :: jsstring where
  "storageKey = js ''fedf_issues_v1''"

datatype load_result = SyntaxError | NoSnapshot | Parsed json

definition load :: "storage \<Rightarrow> load_result" where
  "load store =
     (case store storageKey of
        None \<Rightarrow> NoSnapshot
      | Some saved \<Rightarrow>
          if saved = [] then NoSnapshot
          else (case JSON_parse saved of None \<Rightarrow> SyntaxError | Some v \<Rightarrow> Parsed v))"

definition save :: "app_state \<Rightarrow> storage \<Rightarrow> storage" where
  "save st store = store(storageKey \<mapsto> stringify (issuesToJson (issues st)))"

definition issuesEffect :: "app_state \<Rightarrow> storage \<Rightarrow> app_state \<times> storage" where
  "issuesEffect st store = (refreshSelected st, save st store)"

section \<open>Example data\<close>

definition pothole :: issue where
  "pothole =
     \<lparr>issue_id = js ''1700000000000'', title = js ''Pothole'',
      description = js ''Large pothole on 5th'', category = js ''Roads'',
      status = js ''Open'', comments = [], createdAt = js ''11/14/2023, 10:13:20 PM'',
      reporterRole = js ''Citizen''\<rparr>"

definition waterNotice :: issue where
  "waterNotice =
     \<lparr>issue_id = js ''1700000000001'', title = js ''Broadcast - Water'',
      description = js ''Water main repair scheduled'', category = js ''Water'',
      status = js ''Update'', comments = [], createdAt = js ''11/14/2023, 10:13:21 PM'',
      reporterRole = js ''Politician''\<rparr>"

definition board :: app_state where
  "board =
     \<lparr>role = js ''Citizen'', issues = [waterNotice, pothole], filter_status = js ''all'',
      selected = Some pothole, modalMessage = None\<rparr>"

definition sameTick :: clock where
  "sameTick = \<lparr>now = 1700000000000, localeString = js ''11/14/2023, 10:13:20 PM''\<rparr>"

definition truncatedSnapshot :: storage where
  \<open>truncatedSnapshot = Map.empty(storageKey \<mapsto> js ''[{"id":"1700000000000","title":"Poth'')\<close>

definition undefinedSnapshot :: storage where
  "undefinedSnapshot = Map.empty(storageKey \<mapsto> js ''undefined'')"

lemmas example_defs = board_def pothole_def waterNotice_def sameTick_def

section \<open>Frame properties of the two map-based actions\<close>

lemma length_addComment: "length (issues (addComment clk st k t)) = length (issues st)"
  by (simp add: addComment_def)

lemma length_changeStatus: "length (issues (changeStatus st k s)) = length (issues st)"
  by (simp add: changeStatus_def)

lemma ids_addComment: "map issue_id (issues (addComment clk st k t)) = map issue_id (issues st)"
  by (simp add: addComment_def)

lemma ids_changeStatus: "map issue_id (issues (changeStatus st k s)) = map issue_id (issues st)"
  by (simp add: changeStatus_def)

lemma nth_addComment:
  assumes "n < length (issues st)"
  shows "issues (addComment clk st k t) ! n =
           (if issue_id (issues st ! n) = k
            then (issues st ! n)\<lparr>comments := comments (issues st ! n) @ [newComment clk st t]\<rparr>
            else issues st ! n)"
  using assms by (simp add: addComment_def)

lemma nth_changeStatus:
  assumes "n < length (issues st)"
  shows "issues (changeStatus st k s) ! n =
           (if issue_id (issues st ! n) = k then (issues st ! n)\<lparr>status := s\<rparr>
            else issues st ! n)"
  using assms by (simp add: changeStatus_def)

text \<open>
  C10. \<open>addComment\<close> and \<open>changeStatus\<close> keep the number of issues and the order of
  their ids; at every position an issue whose id differs from the given one is returned
  as it was, and an issue with the given id differs from the old one in its
  \<open>comments\<close> field only (the new comment appended), respectively in its \<open>status\<close>
  field only.
\<close>

theorem comment_status_frame:
  "length (issues (addComment clk st k t)) = length (issues st) \<and>
   map issue_id (issues (addComment clk st k t)) = map issue_id (issues st) \<and>
   length (issues (changeStatus st k s)) = length (issues st) \<and>
   map issue_id (issues (changeStatus st k s)) = map issue_id (issues st) \<and>
   (\<forall>n < length (issues st).
      (issue_id (issues st ! n) \<noteq> k \<longrightarrow>
         issues (addComment clk st k t) ! n = issues st ! n \<and>
         issues (changeStatus st k s) ! n = issues st ! n) \<and>
      (issue_id (issues st ! n) = k \<longrightarrow>
         issues (addComment clk st k t) ! n =
           (issues st ! n)\<lparr>comments := comments (issues st ! n) @ [newComment clk st t]\<rparr> \<and>
         issues (changeStatus st k s) ! n = (issues st ! n)\<lparr>status := s\<rparr>))"
  by (simp add: length_addComment length_changeStatus ids_addComment ids_changeStatus
      nth_addComment nth_changeStatus)

theorem comment_status_frame_witness:
  "issue_id (issues board ! 0) \<noteq> issue_id pothole \<and>
   issues (addComment sameTick board (issue_id pothole) (js ''Seen it too'')) ! 0 = issues board ! 0 \<and>
   issue_id (issues board ! 1) = issue_id pothole \<and>
   issues (changeStatus board (issue_id pothole) (js ''Resolved'')) ! 1
     = (issues board ! 1)\<lparr>status := js ''Resolved''\<rparr>"
proof -
  have a: "0 < length (issues board)" "1 < length (issues board)"
    by (simp_all add: board_def)
  have b: "issue_id (issues board ! 0) \<noteq> issue_id pothole"
    by (simp add: example_defs js_def)
  have c: "issue_id (issues board ! 1) = issue_id pothole"
    by (simp add: board_def)
  from comment_status_frame
         [of sameTick board "issue_id pothole" "js ''Seen it too''" "js ''Resolved''"] a b c
  show ?thesis by blast
qed

section \<open>Operations on an id that is not in the collection\<close>

lemma map_unmatched:
  "k \<notin> issue_id ` set xs \<Longrightarrow> map (\<lambda>it. if issue_id it = k then f it else it) xs = xs"
  by (induction xs) auto

lemma filter_unmatched:
  "k \<notin> issue_id ` set xs \<Longrightarrow> filter (\<lambda>it. issue_id it \<noteq> k) xs = xs"
  by (induction xs) auto

text \<open>
  C8. When no issue of the collection has the given id, \<open>addComment\<close>,
  \<open>changeStatus\<close> and \<open>deleteIssue\<close> (whatever the role) each leave the
  collection equal to what it was.
\<close>

theorem not_found_noop:
  assumes "issueId \<notin> issue_id ` set (issues st)"
  shows "issues (addComment clk st issueId text) = issues st \<and>
         issues (changeStatus st issueId status') = issues st \<and>
         issues (deleteIssue st issueId) = issues st"
proof (intro conjI)
  show "issues (addComment clk st issueId text) = issues st"
    using assms by (simp add: addComment_def map_unmatched)
  show "issues (changeStatus st issueId status') = issues st"
    using assms by (simp add: changeStatus_def map_unmatched)
  show "issues (deleteIssue st issueId) = issues st"
    using assms by (simp add: deleteIssue_def filter_unmatched)
qed

theorem not_found_noop_witness:
  "js ''42'' \<notin> issue_id ` set (issues board) \<and>
   issues (addComment sameTick board (js ''42'') (js ''hello'')) = issues board \<and>
   issues (changeStatus board (js ''42'') (js ''Resolved'')) = issues board \<and>
   issues (deleteIssue (board\<lparr>role := js ''Admin''\<rparr>) (js ''42'')) = issues board"
proof -
  have a: "js ''42'' \<notin> issue_id ` set (issues board)" by (simp add: example_defs js_def)
  have b: "js ''42'' \<notin> issue_id ` set (issues (board\<lparr>role := js ''Admin''\<rparr>))"
    by (simp add: example_defs js_def)
  from not_found_noop [OF a, of sameTick "js ''hello''" "js ''Resolved''"]
       not_found_noop [OF b, of sameTick "js ''hello''" "js ''Resolved''"] a
  show ?thesis by simp
qed

section \<open>The updates feed\<close>

text \<open>
  C9. For every collection and every limit, the feed has at most \<open>limit\<close> entries,
  each of them has status Open or Update, and the feed is a subsequence of the
  collection: its entries come in the collection's order.
\<close>

theorem recent_feed:
  "length (recentFeed collection limit) \<le> limit \<and>
   (\<forall>i \<in> set (recentFeed collection limit). status i = js ''Open'' \<or> status i = js ''Update'') \<and>
   subseq (recentFeed collection limit) collection"
proof (intro conjI)
  show "length (recentFeed collection limit) \<le> limit"
    by (simp add: recentFeed_def)
  show "\<forall>i \<in> set (recentFeed collection limit). status i = js ''Open'' \<or> status i = js ''Update''"
    by (auto simp: recentFeed_def dest: in_set_takeD)
  have "subseq (take limit (filter (\<lambda>i. status i = js ''Update'' \<or> status i = js ''Open'') collection))
          (filter (\<lambda>i. status i = js ''Update'' \<or> status i = js ''Open'') collection)"
    by (rule prefix_imp_subseq) (rule take_is_prefix)
  then show "subseq (recentFeed collection limit) collection"
    unfolding recentFeed_def by (rule subseq_order.trans) (rule subseq_filter_left)
qed

theorem recent_feed_witness:
  "pothole \<in> set (recentFeed (issues board) 6) \<and> status pothole = js ''Open''"
proof -
  have a: "pothole \<in> set (recentFeed (issues board) 6)"
    by (simp add: recentFeed_def example_defs js_def)
  from recent_feed [of "issues board" 6] a show ?thesis by (simp add: example_defs js_def)
qed

section \<open>Status of a broadcast\<close>

theorem changeStatus_broadcast_counterexample:
  "waterNotice \<in> set (issues board) \<and> status waterNotice = js ''Update'' \<and>
   issues (changeStatus board (issue_id waterNotice) (js ''Resolved'')) \<noteq> issues board"
  by (simp add: changeStatus_def example_defs js_def)

lemma changeStatus_sets_status:
  assumes "i \<in> set (issues (changeStatus st k s))" and "issue_id i = k"
  shows "status i = s"
proof -
  from assms(1) obtain x where x: "x \<in> set (issues st)"
      and i: "i = (if issue_id x = k then x\<lparr>status := s\<rparr> else x)"
    by (auto simp: changeStatus_def)
  show ?thesis
  proof (cases "issue_id x = k")
    case True
    with i show ?thesis by simp
  next
    case False
    with i assms(2) show ?thesis by simp
  qed
qed

lemma statusButton_broadcast:
  "selected st = Some i \<Longrightarrow> status i = js ''Update'' \<Longrightarrow> statusButton st s = st"
  by (simp add: statusButton_def isBroadcast_def)

text \<open>
  C1, as the code has it. \<open>changeStatus\<close> itself gives the new status to every issue
  with the given id, whatever its current status, a broadcast included. The protection
  of broadcasts is in the detail view: when the selected issue has status Update, the
  status buttons are not rendered, so a status click, for whatever status, changes
  nothing.
\<close>

theorem broadcast_status_gate:
  "(\<forall>i \<in> set (issues (changeStatus st k s)). issue_id i = k \<longrightarrow> status i = s) \<and>
   (\<forall>i. selected st = Some i \<and> status i = js ''Update'' \<longrightarrow>
      statusButton st s = st \<and> markInProgress st = st \<and> markResolved st = st)"
proof (intro conjI ballI allI impI)
  fix i assume "i \<in> set (issues (changeStatus st k s))" "issue_id i = k"
  then show "status i = s" by (rule changeStatus_sets_status)
next
  fix i assume "selected st = Some i \<and> status i = js ''Update''"
  then show "statusButton st s = st" by (simp add: statusButton_broadcast)
next
  fix i assume "selected st = Some i \<and> status i = js ''Update''"
  then show "markInProgress st = st" by (simp add: markInProgress_def statusButton_broadcast)
next
  fix i assume "selected st = Some i \<and> status i = js ''Update''"
  then show "markResolved st = st" by (simp add: markResolved_def statusButton_broadcast)
qed

theorem broadcast_status_gate_witness:
  "selected (board\<lparr>role := js ''Moderator'', selected := Some waterNotice\<rparr>) = Some waterNotice \<and>
   status waterNotice = js ''Update'' \<and>
   markResolved (board\<lparr>role := js ''Moderator'', selected := Some waterNotice\<rparr>)
     = board\<lparr>role := js ''Moderator'', selected := Some waterNotice\<rparr>"
proof -
  let ?st = "board\<lparr>role := js ''Moderator'', selected := Some waterNotice\<rparr>"
  have a: "selected ?st = Some waterNotice" by simp
  have b: "status waterNotice = js ''Update''" by (simp add: waterNotice_def)
  from broadcast_status_gate [of ?st "js ''1''" "js ''Resolved''"] a b
  show ?thesis by blast
qed

section \<open>Blank input\<close>

theorem blank_title_counterexample:
  "trim [] = [] \<and>
   length (issues (addIssue sameTick board [] (js ''x'') (js ''General''))) \<noteq> length (issues board)"
  by (simp add: addIssue_def trim_def)

text \<open>
  C3, as the code has it. The blank-input guard is in the form handlers, not in
  \<open>addIssue\<close>, \<open>addComment\<close> or \<open>postUpdate\<close>: \<open>submit\<close> with a title or description
  that is empty after trimming, and the comment form with such a text, return the state
  and the form as they were; \<open>send\<close> with such a message leaves the collection as it
  was, and for a Politician the whole state and the form.
\<close>

theorem blank_input_rejected:
  "(trim (form_title f) = [] \<or> trim (form_description f) = [] \<longrightarrow> submit clk st f = (st, f)) \<and>
   (trim text = [] \<longrightarrow> commentSubmit clk st i text = (st, text)) \<and>
   (trim (msg b) = [] \<longrightarrow>
      issues (fst (send clk st b)) = issues st \<and>
      (role st = js ''Politician'' \<longrightarrow> send clk st b = (st, b)))"
  by (simp add: submit_def commentSubmit_def send_def)

theorem blank_input_rejected_witness:
  "trim (form_title \<lparr>form_title = js ''  '', form_description = js ''x'', form_category = js ''Roads''\<rparr>) = [] \<and>
   submit sameTick board \<lparr>form_title = js ''  '', form_description = js ''x'', form_category = js ''Roads''\<rparr>
     = (board, \<lparr>form_title = js ''  '', form_description = js ''x'', form_category = js ''Roads''\<rparr>)"
proof -
  let ?f = "\<lparr>form_title = js ''  '', form_description = js ''x'', form_category = js ''Roads''\<rparr>"
  have a: "trim (form_title ?f) = []" by (simp add: trim_def js_def isWhiteSpace_def)
  from blank_input_rejected [of ?f sameTick board "[]" pothole "\<lparr>msg = [], broadcast_category = []\<rparr>"] a
  show ?thesis by blast
qed

section \<open>Deleting\<close>

theorem delete_denied_counterexample:
  "role board \<noteq> js ''Admin'' \<and>
   modalMessage (deleteIssue board (issue_id pothole)) = Some deleteDenied \<and>
   \<not> sublist (role board) deleteDenied"
  by (simp add: deleteIssue_def deleteDenied_def example_defs js_def sublist_code)

lemma deleteDenied_names_action: "sublist (js ''delete reports'') deleteDenied"
  by (simp add: deleteDenied_def js_def sublist_code)

text \<open>
  C5, as the code has it. For a role other than Admin, \<open>deleteIssue\<close> leaves the
  collection as it was and sets the modal message to one fixed text, which names the
  action (deleting reports) and does not depend on the role. For Admin it removes every
  issue with the given id and keeps the others in their order; when no issue has that
  id the collection is as it was; the modal message is not touched.
\<close>

theorem delete_admin_gate:
  "(role st \<noteq> js ''Admin'' \<longrightarrow>
      issues (deleteIssue st k) = issues st \<and>
      modalMessage (deleteIssue st k) = Some deleteDenied \<and>
      sublist (js ''delete reports'') deleteDenied) \<and>
   (role st = js ''Admin'' \<longrightarrow>
      k \<notin> issue_id ` set (issues (deleteIssue st k)) \<and>
      (\<forall>i \<in> set (issues st). issue_id i \<noteq> k \<longrightarrow> i \<in> set (issues (deleteIssue st k))) \<and>
      subseq (issues (deleteIssue st k)) (issues st) \<and>
      (k \<notin> issue_id ` set (issues st) \<longrightarrow> issues (deleteIssue st k) = issues st) \<and>
      modalMessage (deleteIssue st k) = modalMessage st)"
  by (auto simp: deleteIssue_def filter_unmatched deleteDenied_names_action)

theorem delete_admin_gate_witness:
  "role board \<noteq> js ''Admin'' \<and> issues (deleteIssue board (issue_id pothole)) = issues board \<and>
   role (board\<lparr>role := js ''Admin''\<rparr>) = js ''Admin'' \<and>
   issue_id pothole \<notin> issue_id ` set (issues (deleteIssue (board\<lparr>role := js ''Admin''\<rparr>) (issue_id pothole)))"
proof -
  have a: "role board \<noteq> js ''Admin''" by (simp add: example_defs js_def)
  have b: "role (board\<lparr>role := js ''Admin''\<rparr>) = js ''Admin''" by simp
  from delete_admin_gate [of board "issue_id pothole"]
       delete_admin_gate [of "board\<lparr>role := js ''Admin''\<rparr>" "issue_id pothole"] a b
  show ?thesis by blast
qed

section \<open>Selection\<close>

lemma fst_issuesEffect: "fst (issuesEffect st store) = refreshSelected st"
  by (simp add: issuesEffect_def)

theorem delete_other_counterexample:
  "selected (board\<lparr>role := js ''Admin''\<rparr>) = Some pothole \<and>
   issue_id waterNotice \<noteq> issue_id pothole \<and>
   pothole \<in> set (issues (fst (issuesEffect
                (deleteIssue (board\<lparr>role := js ''Admin''\<rparr>) (issue_id waterNotice)) Map.empty))) \<and>
   selected (fst (issuesEffect
                (deleteIssue (board\<lparr>role := js ''Admin''\<rparr>) (issue_id waterNotice)) Map.empty)) = None"
  by (simp add: fst_issuesEffect refreshSelected_def deleteIssue_def example_defs js_def)

lemma find_id_None: "k \<notin> issue_id ` set xs \<Longrightarrow> find (\<lambda>i. issue_id i = k) xs = None"
  by (induction xs) auto

lemma find_id_Some:
  "k \<in> issue_id ` set xs \<Longrightarrow> \<exists>i. find (\<lambda>i. issue_id i = k) xs = Some i \<and> i \<in> set xs \<and> issue_id i = k"
  by (induction xs) auto

text \<open>
  C6, as the code has it. The effect that follows a change of the collection leaves the
  collection alone; a selection whose id is no longer in the collection is cleared; a
  selection whose id is still there is replaced by the first issue of the collection
  with that id. \<open>deleteIssue\<close> by an Admin clears the selection itself, whichever issue
  it deletes, and the effect leaves it cleared.
\<close>

theorem selection_resolution:
  "issues (fst (issuesEffect st store)) = issues st \<and>
   (\<forall>sel. selected st = Some sel \<and> issue_id sel \<notin> issue_id ` set (issues st) \<longrightarrow>
      selected (fst (issuesEffect st store)) = None) \<and>
   (\<forall>sel. selected st = Some sel \<and> issue_id sel \<in> issue_id ` set (issues st) \<longrightarrow>
      (\<exists>i. selected (fst (issuesEffect st store)) = Some i \<and> i \<in> set (issues st) \<and>
           issue_id i = issue_id sel \<and>
           find (\<lambda>i. issue_id i = issue_id sel) (issues st) = Some i)) \<and>
   (role st = js ''Admin'' \<longrightarrow>
      selected (deleteIssue st k) = None \<and>
      selected (fst (issuesEffect (deleteIssue st k) store)) = None)"
proof (intro conjI allI impI)
  show "issues (fst (issuesEffect st store)) = issues st"
    by (simp add: fst_issuesEffect refreshSelected_def split: option.splits)
next
  fix sel assume "selected st = Some sel \<and> issue_id sel \<notin> issue_id ` set (issues st)"
  then show "selected (fst (issuesEffect st store)) = None"
    by (simp add: fst_issuesEffect refreshSelected_def find_id_None)
next
  fix sel assume a: "selected st = Some sel \<and> issue_id sel \<in> issue_id ` set (issues st)"
  then obtain i where "find (\<lambda>i. issue_id i = issue_id sel) (issues st) = Some i"
      "i \<in> set (issues st)" "issue_id i = issue_id sel"
    using find_id_Some by blast
  with a show "\<exists>i. selected (fst (issuesEffect st store)) = Some i \<and> i \<in> set (issues st) \<and>
           issue_id i = issue_id sel \<and>
           find (\<lambda>i. issue_id i = issue_id sel) (issues st) = Some i"
    by (simp add: fst_issuesEffect refreshSelected_def)
next
  assume "role st = js ''Admin''"
  then show "selected (deleteIssue st k) = None"
    by (simp add: deleteIssue_def)
next
  assume "role st = js ''Admin''"
  then show "selected (fst (issuesEffect (deleteIssue st k) store)) = None"
    by (simp add: fst_issuesEffect refreshSelected_def deleteIssue_def)
qed

theorem selection_resolution_witness:
  "selected (changeStatus board (issue_id pothole) (js ''Resolved'')) = Some pothole \<and>
   selected (fst (issuesEffect (changeStatus board (issue_id pothole) (js ''Resolved'')) Map.empty))
     = Some (pothole\<lparr>status := js ''Resolved''\<rparr>)"
proof -
  let ?st = "changeStatus board (issue_id pothole) (js ''Resolved'')"
  have a: "selected ?st = Some pothole" by (simp add: changeStatus_def board_def)
  have b: "issue_id pothole \<in> issue_id ` set (issues ?st)"
    by (simp add: changeStatus_def example_defs js_def)
  have c: "find (\<lambda>i. issue_id i = issue_id pothole) (issues ?st) = Some (pothole\<lparr>status := js ''Resolved''\<rparr>)"
    by (simp add: changeStatus_def example_defs js_def)
  from selection_resolution [of ?st Map.empty "[]"] a b c show ?thesis by fastforce
qed

section \<open>Creating an issue\<close>

theorem addIssue_id_counterexample:
  "trim (js ''Pothole again'') \<noteq> [] \<and> trim (js ''Still there'') \<noteq> [] \<and>
   issue_id (hd (issues (addIssue sameTick board (js ''Pothole again'') (js ''Still there'') (js ''Roads''))))
     \<in> issue_id ` set (issues board)"
  by (simp add: addIssue_def example_defs js_def trim_def isWhiteSpace_def numberToString_def digitsOf.simps)

text \<open>
  C7, as the code has it. \<open>addIssue\<close> puts one new issue in front of the collection:
  status Open, no comments, \<open>createdAt\<close> the clock's locale string, the given title,
  description and category, the current role as reporter, and as id the decimal string
  of \<open>Date.now()\<close>. That id is new when no issue of the collection already carries
  this string. \<open>submit\<close> with a title and description that are non-empty after
  trimming calls \<open>addIssue\<close> with the trimmed texts.
\<close>

theorem addIssue_creates:
  "issues (addIssue clk st t d c) = hd (issues (addIssue clk st t d c)) # issues st \<and>
   hd (issues (addIssue clk st t d c)) =
     \<lparr>issue_id = numberToString (now clk), title = t, description = d, category = c,
      status = js ''Open'', comments = [], createdAt = localeString clk, reporterRole = role st\<rparr> \<and>
   (numberToString (now clk) \<notin> issue_id ` set (issues st) \<longrightarrow>
      issue_id (hd (issues (addIssue clk st t d c))) \<notin> issue_id ` set (issues st)) \<and>
   (trim (form_title f) \<noteq> [] \<and> trim (form_description f) \<noteq> [] \<longrightarrow>
      fst (submit clk st f) = addIssue clk st (trim (form_title f)) (trim (form_description f)) (form_category f))"
  by (simp add: addIssue_def submit_def Let_def)

theorem addIssue_creates_witness:
  "numberToString (now (sameTick\<lparr>now := 1700000000002\<rparr>)) \<notin> issue_id ` set (issues board) \<and>
   issue_id (hd (issues (addIssue (sameTick\<lparr>now := 1700000000002\<rparr>) board (js ''Pothole again'') (js ''Still there'') (js ''Roads''))))
     \<notin> issue_id ` set (issues board)"
proof -
  have a: "numberToString (now (sameTick\<lparr>now := 1700000000002\<rparr>)) \<notin> issue_id ` set (issues board)"
    by (simp add: example_defs js_def numberToString_def digitsOf.simps)
  from addIssue_creates [of "sameTick\<lparr>now := 1700000000002\<rparr>" board "js ''Pothole again''" "js ''Still there''" "js ''Roads''"
          "\<lparr>form_title = [], form_description = [], form_category = []\<rparr>"] a
  show ?thesis by blast
qed

section \<open>Strings survive quoting and parsing\<close>

lemma hex_digits_value:
  fixes n :: nat
  shows "((n div 4096 * 16 + n div 256 mod 16) * 16 + n div 16 mod 16) * 16 + n mod 16 = n"
proof -
  have a: "n div 4096 = n div 256 div 16" by (simp add: div_mult2_eq [symmetric])
  have b: "n div 256 = n div 16 div 16" by (simp add: div_mult2_eq [symmetric])
  have "n div 4096 * 16 + n div 256 mod 16 = n div 256"
    unfolding a by (rule div_mult_mod_eq)
  moreover have "n div 256 * 16 + n div 16 mod 16 = n div 16"
    unfolding b by (rule div_mult_mod_eq)
  moreover have "n div 16 * 16 + n mod 16 = n"
    by (rule div_mult_mod_eq)
  ultimately show ?thesis by simp
qed

lemma unhex_hexDigit_all: "\<forall>k \<in> set [0..<16]. unhex (hexDigit k) = Some k"
  by (simp add: upt_rec unhex_def hexDigit_def)

lemma unhex_hexDigit: "k < 16 \<Longrightarrow> unhex (hexDigit k) = Some k"
  using unhex_hexDigit_all by simp

lemma unhex4_unicodeEscape:
  "unhex4 (hexDigit (unat c div 4096)) (hexDigit (unat c div 256 mod 16))
          (hexDigit (unat c div 16 mod 16)) (hexDigit (unat c mod 16)) = Some (c :: jschar)"
proof -
  have "unat c < 2 ^ 16" using unsigned_less [of c] by simp
  then have d: "unat c div 4096 < 16" by simp
  have "unhex4 (hexDigit (unat c div 4096)) (hexDigit (unat c div 256 mod 16))
          (hexDigit (unat c div 16 mod 16)) (hexDigit (unat c mod 16))
        = Some (of_nat (((unat c div 4096 * 16 + unat c div 256 mod 16) * 16
                          + unat c div 16 mod 16) * 16 + unat c mod 16))"
    unfolding unhex4_def by (simp only: unhex_hexDigit d mod_less_divisor zero_less_numeral
        prod.case option.case)
  then have "unhex4 (hexDigit (unat c div 4096)) (hexDigit (unat c div 256 mod 16))
          (hexDigit (unat c div 16 mod 16)) (hexDigit (unat c mod 16))
        = Some (of_nat (unat c))"
    by (simp only: hex_digits_value)
  then show ?thesis by simp
qed

lemma parseChars_literal:
  "c \<noteq> 0x22 \<Longrightarrow> c \<noteq> 0x5C \<Longrightarrow> \<not> c < 0x20 \<Longrightarrow> parseChars (c # t) = consChar c (parseChars t)"
  by (simp add: parseChars.simps)

lemma surrogate_literal:
  "isHighSurrogate c \<or> isLowSurrogate c \<Longrightarrow> c \<noteq> 0x22 \<and> c \<noteq> 0x5C \<and> \<not> c < 0x20"
  by (auto simp: isHighSurrogate_def isLowSurrogate_def word_le_nat_alt word_less_nat_alt)

lemma parseChars_unicodeEscape:
  "parseChars (unicodeEscape c @ t) = consChar c (parseChars t)"
  by (simp add: unicodeEscape_def unhex4_unicodeEscape parseChars.simps)

lemma parseChars_quoteUnit: "parseChars (quoteUnit c @ t) = consChar c (parseChars t)"
proof -
  consider (short) "c = 0x08 \<or> c = 0x09 \<or> c = 0x0A \<or> c = 0x0C \<or> c = 0x0D \<or> c = 0x22 \<or> c = 0x5C"
    | (unicode) "c \<noteq> 0x08" "c \<noteq> 0x09" "c \<noteq> 0x0A" "c \<noteq> 0x0C" "c \<noteq> 0x0D" "c \<noteq> 0x22" "c \<noteq> 0x5C"
        "c < 0x20 \<or> isHighSurrogate c \<or> isLowSurrogate c"
    | (literal) "c \<noteq> 0x22" "c \<noteq> 0x5C" "\<not> c < 0x20" "\<not> isHighSurrogate c" "\<not> isLowSurrogate c"
        "c \<noteq> 0x08" "c \<noteq> 0x09" "c \<noteq> 0x0A" "c \<noteq> 0x0C" "c \<noteq> 0x0D"
    by blast
  then show ?thesis
  proof cases
    case short
    then show ?thesis by (auto simp: quoteUnit_def unescape_def parseChars.simps)
  next
    case unicode
    then have "quoteUnit c = unicodeEscape c" by (simp add: quoteUnit_def)
    then show ?thesis by (simp only: parseChars_unicodeEscape)
  next
    case literal
    then have "quoteUnit c = [c]" by (simp add: quoteUnit_def)
    with literal show ?thesis by (simp add: parseChars_literal)
  qed
qed

lemma parseChars_quoteChars: "parseChars (quoteChars s @ 0x22 # rest) = Some (s, rest)"
proof (induction s rule: quoteChars.induct)
  case 1
  show ?case by (simp add: parseChars.simps)
next
  case (2 c)
  have "parseChars (quoteUnit c @ 0x22 # rest) = consChar c (parseChars (0x22 # rest))"
    by (rule parseChars_quoteUnit)
  then show ?case by (simp add: consChar_def parseChars.simps)
next
  case (3 c d cs)
  show ?case
  proof (cases "isHighSurrogate c \<and> isLowSurrogate d")
    case True
    then have c: "c \<noteq> 0x22 \<and> c \<noteq> 0x5C \<and> \<not> c < 0x20" and d: "d \<noteq> 0x22 \<and> d \<noteq> 0x5C \<and> \<not> d < 0x20"
      using surrogate_literal by blast+
    from True 3 have ih: "parseChars (quoteChars cs @ 0x22 # rest) = Some (cs, rest)" by simp
    have "parseChars (quoteChars (c # d # cs) @ 0x22 # rest)
            = parseChars (c # d # (quoteChars cs @ 0x22 # rest))"
      using True by simp
    also have "\<dots> = consChar c (consChar d (parseChars (quoteChars cs @ 0x22 # rest)))"
      using c d by (simp add: parseChars_literal)
    finally show ?thesis by (simp add: ih consChar_def)
  next
    case False
    with 3 have ih: "parseChars (quoteChars (d # cs) @ 0x22 # rest) = Some (d # cs, rest)" by simp
    have "parseChars (quoteChars (c # d # cs) @ 0x22 # rest)
            = parseChars (quoteUnit c @ (quoteChars (d # cs) @ 0x22 # rest))"
      using False by auto
    also have "\<dots> = consChar c (parseChars (quoteChars (d # cs) @ 0x22 # rest))"
      by (rule parseChars_quoteUnit)
    finally show ?thesis by (simp add: ih consChar_def)
  qed
qed

section \<open>Values survive \<open>JSON.stringify\<close> and \<open>JSON.parse\<close>\<close>

lemma stringify_start: "numberFree v \<Longrightarrow> \<exists>c t. stringify v = c # t \<and> valueStart c"
  by (cases v) (auto simp: valueStart_def js_def quoteJSONString_def)

lemma valueStart_not_space: "valueStart c \<Longrightarrow> \<not> isJsonSpace c"
  by (auto simp: valueStart_def isJsonSpace_def)

lemma skipWs_start [simp]: "\<not> isJsonSpace c \<Longrightarrow> skipWs (c # t) = c # t"
  by (simp add: skipWs_def)

lemma joinWith_start:
  assumes "vs \<noteq> []" "list_all numberFree vs"
  shows "\<exists>c t. joinWith sep (map stringify vs) = c # t \<and> valueStart c"
proof (cases vs)
  case Nil
  with assms show ?thesis by simp
next
  case (Cons v ws)
  with assms obtain c t where "stringify v = c # t" "valueStart c"
    using stringify_start [of v] by auto
  with Cons show ?thesis by (cases ws) auto
qed

lemma cost_positive: "0 < cost v"
  by (cases v) auto

lemma parseValue_string:
  "0 < m \<Longrightarrow> parseValue m (stringify (JString s) @ t) = Some (JString s, t)"
  by (cases m) (simp_all add: parseValue.simps quoteJSONString_def isJsonSpace_def parseChars_quoteChars)

lemma stripPrefix_append: "stripPrefix xs (xs @ t) = Some t"
  by (induction xs) auto

lemma parseValue_null:
  "0 < m \<Longrightarrow> parseValue m (stringify JNull @ t) = Some (JNull, t)"
proof (cases m)
  case 0
  then show "0 < m \<Longrightarrow> ?thesis" by simp
next
  case (Suc n)
  have "stringify JNull @ t = 0x6E # (js ''ull'' @ t)" by (simp add: js_def)
  then have "parseValue (Suc n) (stringify JNull @ t) = parseLiteral ''null'' JNull (js ''null'' @ t)"
    by (simp add: parseValue.simps isJsonSpace_def js_def)
  then show ?thesis using Suc by (simp add: parseLiteral_def stripPrefix_append)
qed

lemma parseValue_bool:
  "0 < m \<Longrightarrow> parseValue m (stringify (JBool b) @ t) = Some (JBool b, t)"
proof (cases m)
  case 0
  then show "0 < m \<Longrightarrow> ?thesis" by simp
next
  case (Suc n)
  show ?thesis
  proof (cases b)
    case True
    have "parseValue (Suc n) (stringify (JBool True) @ t) = parseLiteral ''true'' (JBool True) (js ''true'' @ t)"
      by (simp add: parseValue.simps isJsonSpace_def js_def)
    then show ?thesis using Suc True by (simp add: parseLiteral_def stripPrefix_append)
  next
    case False
    have "parseValue (Suc n) (stringify (JBool False) @ t) = parseLiteral ''false'' (JBool False) (js ''false'' @ t)"
      by (simp add: parseValue.simps isJsonSpace_def js_def)
    then show ?thesis using Suc False by (simp add: parseLiteral_def stripPrefix_append)
  qed
qed

lemma parseElements_step:
  assumes "parseValue n s = Some (v, c # r)" "\<not> isJsonSpace c"
  shows "parseElements (Suc n) s =
           (if c = 0x2C then (case parseElements n r of None \<Rightarrow> None | Some (vs, r'') \<Rightarrow> Some (v # vs, r''))
            else if c = 0x5D then Some ([v], r) else None)"
  using assms by (simp add: parseElements.simps)

lemma parseElements_join:
  assumes "\<And>v m t. v \<in> set vs \<Longrightarrow> cost v \<le> m \<Longrightarrow> parseValue m (stringify v @ t) = Some (v, t)"
    and "vs \<noteq> []"
    and "sum_list (map (\<lambda>v. Suc (cost v)) vs) \<le> n"
  shows "parseElements n (joinWith 0x2C (map stringify vs) @ 0x5D # rest) = Some (vs, rest)"
  using assms
proof (induction vs arbitrary: n)
  case Nil
  then show ?case by simp
next
  case (Cons v ws)
  from Cons.prems(3) obtain k where n: "n = Suc k" and k: "cost v + sum_list (map (\<lambda>v. Suc (cost v)) ws) \<le> k"
    by (cases n) auto
  then have cv: "cost v \<le> k" by simp
  show ?case
  proof (cases ws)
    case Nil
    have pv: "parseValue k (stringify v @ 0x5D # rest) = Some (v, 0x5D # rest)"
      using Cons.prems(1) cv by simp
    have "parseElements (Suc k) (stringify v @ 0x5D # rest) = Some ([v], rest)"
      using parseElements_step [OF pv] by (simp add: isJsonSpace_def)
    with Nil n show ?thesis by simp
  next
    case (Cons w ws')
    let ?tail = "joinWith 0x2C (map stringify ws) @ 0x5D # rest"
    have ih: "parseElements k ?tail = Some (ws, rest)"
    proof (rule Cons.IH)
      show "ws \<noteq> []" using Cons by simp
      show "sum_list (map (\<lambda>v. Suc (cost v)) ws) \<le> k" using k by simp
      show "\<And>v m t. v \<in> set ws \<Longrightarrow> cost v \<le> m \<Longrightarrow> parseValue m (stringify v @ t) = Some (v, t)"
        using Cons.prems(1) by simp
    qed
    have pv: "parseValue k (stringify v @ 0x2C # ?tail) = Some (v, 0x2C # ?tail)"
      using \<open>\<And>v' m t. v' \<in> set (v # ws) \<Longrightarrow> cost v' \<le> m \<Longrightarrow> parseValue m (stringify v' @ t) = Some (v', t)\<close> cv
      by simp
    have "parseElements (Suc k) (stringify v @ 0x2C # ?tail) = Some (v # ws, rest)"
      using parseElements_step [OF pv] by (simp add: isJsonSpace_def ih)
    with Cons n show ?thesis by simp
  qed
qed

lemma parseMembers_step:
  assumes "parseChars r = Some (k, 0x3A # r2)" "parseValue n r2 = Some (v, c # r4)" "\<not> isJsonSpace c"
  shows "parseMembers (Suc n) (0x22 # r) =
           (if c = 0x2C then (case parseMembers n r4 of None \<Rightarrow> None | Some (ms, r5) \<Rightarrow> Some ((k, v) # ms, r5))
            else if c = 0x7D then Some ([(k, v)], r4) else None)"
  using assms by (simp add: parseMembers.simps isJsonSpace_def)

lemma parseChars_key:
  "parseChars (quoteChars k @ 0x22 # 0x3A # t) = Some (k, 0x3A # t)"
  by (rule parseChars_quoteChars)

lemma parseMembers_join:
  assumes "\<And>e m t. e \<in> set ms \<Longrightarrow> cost (snd e) \<le> m \<Longrightarrow> parseValue m (stringify (snd e) @ t) = Some (snd e, t)"
    and "ms \<noteq> []"
    and "sum_list (map (\<lambda>e. Suc (cost (snd e))) ms) \<le> n"
  shows "parseMembers n
           (joinWith 0x2C (map (\<lambda>e. quoteJSONString (fst e) @ 0x3A # stringify (snd e)) ms) @ 0x7D # rest)
         = Some (ms, rest)"
  using assms
proof (induction ms arbitrary: n)
  case Nil
  then show ?case by simp
next
  case (Cons e es)
  obtain key v where e: "e = (key, v)" by (cases e)
  from Cons.prems(3) obtain k where n: "n = Suc k"
      and k: "cost v + sum_list (map (\<lambda>e. Suc (cost (snd e))) es) \<le> k"
    using e by (cases n) auto
  then have cv: "cost v \<le> k" by simp
  have val: "\<And>t. parseValue k (stringify v @ t) = Some (v, t)"
    using Cons.prems(1) [of e k] cv e by simp
  show ?case
  proof (cases es)
    case Nil
    have "parseMembers (Suc k) (0x22 # (quoteChars key @ 0x22 # 0x3A # (stringify v @ 0x7D # rest)))
            = Some ([(key, v)], rest)"
      using parseMembers_step [OF parseChars_key val] by (simp add: isJsonSpace_def)
    with Nil n e show ?thesis by (simp add: quoteJSONString_def)
  next
    case (Cons e' es')
    let ?tail = "joinWith 0x2C (map (\<lambda>e. quoteJSONString (fst e) @ 0x3A # stringify (snd e)) es) @ 0x7D # rest"
    have ih: "parseMembers k ?tail = Some (es, rest)"
    proof (rule Cons.IH)
      show "es \<noteq> []" using Cons by simp
      show "sum_list (map (\<lambda>e. Suc (cost (snd e))) es) \<le> k" using k by simp
      show "\<And>e m t. e \<in> set es \<Longrightarrow> cost (snd e) \<le> m \<Longrightarrow> parseValue m (stringify (snd e) @ t) = Some (snd e, t)"
        using Cons.prems(1) by simp
    qed
    have "parseMembers (Suc k) (0x22 # (quoteChars key @ 0x22 # 0x3A # (stringify v @ 0x2C # ?tail)))
            = Some ((key, v) # es, rest)"
      using parseMembers_step [OF parseChars_key val] by (simp add: isJsonSpace_def ih)
    with Cons n e show ?thesis by (simp add: quoteJSONString_def)
  qed
qed

lemma parseValue_array:
  assumes "\<not> isJsonSpace d" "d \<noteq> 0x5D"
  shows "parseValue (Suc n) (0x5B # d # r) =
           (case parseElements n (d # r) of None \<Rightarrow> None | Some (vs, r'') \<Rightarrow> Some (JArray vs, r''))"
  using assms by (simp add: parseValue.simps isJsonSpace_def)

lemma parseValue_object:
  assumes "\<not> isJsonSpace d" "d \<noteq> 0x7D"
  shows "parseValue (Suc n) (0x7B # d # r) =
           (case parseMembers n (d # r) of None \<Rightarrow> None | Some (ms, r'') \<Rightarrow> Some (JObject ms, r''))"
  using assms by (simp add: parseValue.simps isJsonSpace_def)

lemma valueStart_not_close: "valueStart c \<Longrightarrow> c \<noteq> 0x5D \<and> c \<noteq> 0x7D"
  by (auto simp: valueStart_def)

lemma parseValue_stringify:
  "numberFree v \<Longrightarrow> cost v \<le> m \<Longrightarrow> parseValue m (stringify v @ t) = Some (v, t)"
proof (induction v arbitrary: m t)
  case JNull
  then show ?case by (intro parseValue_null) simp
next
  case (JBool b)
  then show ?case by (intro parseValue_bool) simp
next
  case (JNumber n)
  then show ?case by simp
next
  case (JString s)
  then show ?case by (intro parseValue_string) simp
next
  case (JArray vs)
  from JArray.prems obtain k where m: "m = Suc k" and k: "sum_list (map (\<lambda>v. Suc (cost v)) vs) \<le> k"
    by (cases m) auto
  show ?case
  proof (cases "vs = []")
    case True
    then show ?thesis using m by (simp add: parseValue.simps isJsonSpace_def)
  next
    case False
    from JArray.prems have nf: "list_all numberFree vs" by simp
    obtain c u where cu: "joinWith 0x2C (map stringify vs) = c # u" "valueStart c"
      using joinWith_start [OF False nf] by blast
    have elems: "parseElements k (joinWith 0x2C (map stringify vs) @ 0x5D # t) = Some (vs, t)"
    proof (rule parseElements_join [OF _ False k])
      fix v m t assume "v \<in> set vs" "cost v \<le> m"
      with JArray.IH nf show "parseValue m (stringify v @ t) = Some (v, t)"
        by (simp add: list_all_iff)
    qed
    have "parseValue (Suc k) (0x5B # c # (u @ 0x5D # t)) = Some (JArray vs, t)"
      using parseValue_array [of c k "u @ 0x5D # t"] cu valueStart_not_space valueStart_not_close elems
      by simp
    with cu m show ?thesis by simp
  qed
next
  case (JObject ms)
  from JObject.prems obtain k where m: "m = Suc k"
      and k: "sum_list (map (\<lambda>e. Suc (cost (snd e))) ms) \<le> k"
    by (cases m) auto
  let ?text = "joinWith 0x2C (map (\<lambda>e. quoteJSONString (fst e) @ 0x3A # stringify (snd e)) ms)"
  show ?case
  proof (cases "ms = []")
    case True
    then show ?thesis using m by (simp add: parseValue.simps isJsonSpace_def)
  next
    case False
    from JObject.prems have nf: "list_all (\<lambda>e. numberFree (snd e)) ms" by simp
    obtain e es where ms: "ms = e # es" using False by (cases ms) auto
    have "\<exists>u. ?text = 0x22 # u"
      unfolding ms by (cases es) (simp_all add: quoteJSONString_def)
    then obtain u where cu: "?text = 0x22 # u" by blast
    have members: "parseMembers k (?text @ 0x7D # t) = Some (ms, t)"
    proof (rule parseMembers_join [OF _ False k])
      fix e m t assume "e \<in> set ms" "cost (snd e) \<le> m"
      with JObject.IH nf show "parseValue m (stringify (snd e) @ t) = Some (snd e, t)"
        by (cases e) (fastforce simp: list_all_iff)
    qed
    have "parseValue (Suc k) (0x7B # 0x22 # (u @ 0x7D # t)) = Some (JObject ms, t)"
      using parseValue_object [of "0x22" k "u @ 0x7D # t"] cu members
      by (simp add: isJsonSpace_def)
    with cu m show ?thesis by simp
  qed
qed

lemma joinWith_bound:
  assumes "\<And>x. x \<in> set xs \<Longrightarrow> f x \<le> length (g x)"
  shows "sum_list (map (\<lambda>x. Suc (f x)) xs) \<le> Suc (length (joinWith sep (map g xs)))"
  using assms
proof (induction xs)
  case Nil
  show ?case by simp
next
  case (Cons x xs)
  have x: "f x \<le> length (g x)" using Cons.prems by simp
  have ih: "sum_list (map (\<lambda>x. Suc (f x)) xs) \<le> Suc (length (joinWith sep (map g xs)))"
    using Cons by simp
  show ?case
  proof (cases xs)
    case Nil
    with x show ?thesis by simp
  next
    case (Cons y ys)
    with x ih show ?thesis by simp
  qed
qed

lemma cost_le_length: "numberFree v \<Longrightarrow> cost v \<le> length (stringify v)"
proof (induction v)
  case (JArray vs)
  have "sum_list (map (\<lambda>v. Suc (cost v)) vs) \<le> Suc (length (joinWith 0x2C (map stringify vs)))"
  proof (rule joinWith_bound)
    fix v assume "v \<in> set vs"
    with JArray show "cost v \<le> length (stringify v)" by (simp add: list_all_iff)
  qed
  then show ?case by simp
next
  case (JObject ms)
  have "sum_list (map (\<lambda>e. Suc (cost (snd e))) ms)
          \<le> Suc (length (joinWith 0x2C (map (\<lambda>e. quoteJSONString (fst e) @ 0x3A # stringify (snd e)) ms)))"
  proof (rule joinWith_bound)
    fix e assume e: "e \<in> set ms"
    with JObject.prems have "numberFree (snd e)" by (simp add: list_all_iff)
    with JObject.IH e have "cost (snd e) \<le> length (stringify (snd e))"
      by (cases e) fastforce
    then show "cost (snd e) \<le> length (quoteJSONString (fst e) @ 0x3A # stringify (snd e))"
      by simp
  qed
  then show ?case by simp
qed (simp_all add: js_def quoteJSONString_def)

lemma JSON_parse_stringify: "numberFree v \<Longrightarrow> JSON_parse (stringify v) = Some v"
proof -
  assume nf: "numberFree v"
  have "parseValue (length (stringify v)) (stringify v @ []) = Some (v, [])"
    using nf cost_le_length [OF nf] by (rule parseValue_stringify)
  then show ?thesis by (simp add: JSON_parse_def skipWs_def)
qed

section \<open>The parser never fails for lack of fuel\<close>

text \<open>
  A successful parse consumes at least one code unit for each unit of fuel it needs.
  So the result of \<open>parseValue\<close> is the same for every fuel from the length of the text
  upwards: when \<open>JSON_parse\<close> gives \<open>None\<close>, the text is not JSON.
\<close>

lemma length_skipWs: "length (skipWs s) \<le> length s"
  by (simp add: skipWs_def length_dropWhile_le)

lemma skipWs_Cons_length: "skipWs s = c # r \<Longrightarrow> length r < length s"
  using length_skipWs [of s] by simp

lemma consChar_Some: "consChar c x = Some (t, r) \<Longrightarrow> \<exists>t'. x = Some (t', r)"
  by (auto simp: consChar_def split: option.splits)

lemma parseChars_rec:
  assumes "parseChars (c # cs) = Some (t, r)"
  shows "r = cs \<or> (\<exists>s' t'. parseChars s' = Some (t', r) \<and> length s' \<le> length cs)"
  using assms
  by (simp add: parseChars.simps split: if_splits list.splits option.splits)
     (fastforce dest!: consChar_Some)+

lemma parseChars_consumes: "parseChars s = Some (t, r) \<Longrightarrow> length r < length s"
proof (induction "length s" arbitrary: s t rule: less_induct)
  case less
  from less.prems obtain c cs where s: "s = c # cs"
    by (cases s) (auto simp: parseChars.simps)
  from parseChars_rec [of c cs t r] less.prems s
  consider "r = cs" | s' t' where "parseChars s' = Some (t', r)" "length s' \<le> length cs"
    by blast
  then show ?case
  proof cases
    case 1
    with s show ?thesis by simp
  next
    case 2
    with s have "length s' < length s" by simp
    with less.hyps 2 have "length r < length s'" by blast
    with 2 s show ?thesis by simp
  qed
qed

lemma stripPrefix_length: "stripPrefix xs s = Some r \<Longrightarrow> length s = length xs + length r"
  by (induction xs s rule: stripPrefix.induct) (auto split: if_splits)

lemma parseLiteral_consumes:
  "parseLiteral w v s = Some (x, r) \<Longrightarrow> w \<noteq> [] \<Longrightarrow> length r < length s"
  by (cases w) (auto simp: parseLiteral_def js_def split: option.splits dest!: stripPrefix_length)

lemma parseDigits_length: "parseDigits s = Some (ds, r) \<Longrightarrow> length r \<le> length s"
  by (auto simp: parseDigits_def length_dropWhile_le split: if_splits)

lemma parseFrac_length: "parseFrac s = Some (f, r) \<Longrightarrow> length r \<le> length s"
  by (auto simp: parseFrac_def split: list.splits if_splits option.splits dest!: parseDigits_length)

lemma parseExp_length: "parseExp s = Some (e, r) \<Longrightarrow> length r \<le> length s"
  by (auto simp: parseExp_def split: list.splits if_splits option.splits dest!: parseDigits_length)

lemma parseIntegerPart_consumes: "parseIntegerPart s = Some (i, r) \<Longrightarrow> length r < length s"
  by (auto simp: parseIntegerPart_def less_Suc_eq_le length_dropWhile_le split: list.splits if_splits)

lemma parseNumber_consumes: "parseNumber s = Some (l, r) \<Longrightarrow> length r < length s"
  by (auto simp: parseNumber_def split: list.splits if_splits option.splits prod.splits
      dest!: parseIntegerPart_consumes parseFrac_length parseExp_length)

lemma parseValue_Suc_shape:
  assumes "parseValue (Suc n) s = Some (v, r)"
  shows "((\<forall>m. parseValue (Suc m) s = Some (v, r)) \<and> length r < length s)
       \<or> (\<exists>rest vs. length rest < length s \<and> parseElements n rest = Some (vs, r) \<and> v = JArray vs \<and>
             (\<forall>m. parseElements m rest = Some (vs, r) \<longrightarrow> parseValue (Suc m) s = Some (v, r)))
       \<or> (\<exists>rest ms. length rest < length s \<and> parseMembers n rest = Some (ms, r) \<and> v = JObject ms \<and>
             (\<forall>m. parseMembers m rest = Some (ms, r) \<longrightarrow> parseValue (Suc m) s = Some (v, r)))"
proof -
  from assms obtain c rest where sk: "skipWs s = c # rest"
    by (cases "skipWs s") (auto simp: parseValue.simps)
  then have len: "length rest < length s" by (rule skipWs_Cons_length)
  show ?thesis
  proof (cases "c = 0x5B \<or> c = 0x7B")
    case False
    have "\<And>m. parseValue (Suc m) s = parseValue (Suc n) s"
      using sk False by (simp add: parseValue.simps)
    with assms have "\<forall>m. parseValue (Suc m) s = Some (v, r)"
      by simp
    moreover from assms sk False len have "length r < length s"
      by (auto simp: parseValue.simps split: if_splits option.splits
          dest!: parseChars_consumes parseLiteral_consumes parseNumber_consumes)
    ultimately show ?thesis by blast
  next
    case True
    then show ?thesis
    proof
      assume c: "c = 0x5B"
      from assms sk c obtain d r' where sk2: "skipWs rest = d # r'"
        by (cases "skipWs rest") (auto simp: parseValue.simps)
      show ?thesis
      proof (cases "d = 0x5D")
        case True
        have "\<And>m. parseValue (Suc m) s = parseValue (Suc n) s"
          using sk c sk2 True by (simp add: parseValue.simps)
        with assms have "\<forall>m. parseValue (Suc m) s = Some (v, r)"
          by simp
        moreover from assms sk c sk2 True have "r = r'"
          by (simp add: parseValue.simps)
        moreover from sk2 have "length r' < length rest" by (rule skipWs_Cons_length)
        ultimately show ?thesis using len by auto
      next
        case False
        with assms sk c sk2 obtain vs where "parseElements n rest = Some (vs, r)" "v = JArray vs"
          by (auto simp: parseValue.simps split: option.splits)
        moreover from sk c sk2 False
        have "\<forall>m. parseElements m rest = Some (vs, r) \<longrightarrow> parseValue (Suc m) s = Some (JArray vs, r)"
          by (simp add: parseValue.simps)
        ultimately show ?thesis using len by blast
      qed
    next
      assume c: "c = 0x7B"
      from assms sk c obtain d r' where sk2: "skipWs rest = d # r'"
        by (cases "skipWs rest") (auto simp: parseValue.simps)
      show ?thesis
      proof (cases "d = 0x7D")
        case True
        have "\<And>m. parseValue (Suc m) s = parseValue (Suc n) s"
          using sk c sk2 True by (simp add: parseValue.simps)
        with assms have "\<forall>m. parseValue (Suc m) s = Some (v, r)"
          by simp
        moreover from assms sk c sk2 True have "r = r'"
          by (simp add: parseValue.simps)
        moreover from sk2 have "length r' < length rest" by (rule skipWs_Cons_length)
        ultimately show ?thesis using len by auto
      next
        case False
        with assms sk c sk2 obtain ms where "parseMembers n rest = Some (ms, r)" "v = JObject ms"
          by (auto simp: parseValue.simps split: option.splits)
        moreover from sk c sk2 False
        have "\<forall>m. parseMembers m rest = Some (ms, r) \<longrightarrow> parseValue (Suc m) s = Some (JObject ms, r)"
          by (simp add: parseValue.simps)
        ultimately show ?thesis using len by blast
      qed
    qed
  qed
qed

lemma parseElements_Suc_shape:
  assumes "parseElements (Suc n) s = Some (vs, r)"
  shows "\<exists>v r1. parseValue n s = Some (v, r1) \<and>
           ((length r < length r1 \<and>
             (\<forall>m. parseValue m s = Some (v, r1) \<longrightarrow> parseElements (Suc m) s = Some (vs, r)))
          \<or> (\<exists>r' ws. length r' < length r1 \<and> parseElements n r' = Some (ws, r) \<and>
                (\<forall>m. parseValue m s = Some (v, r1) \<longrightarrow> parseElements m r' = Some (ws, r) \<longrightarrow>
                     parseElements (Suc m) s = Some (vs, r))))"
proof -
  from assms obtain v r1 where pv: "parseValue n s = Some (v, r1)"
    by (auto simp: parseElements.simps split: option.splits)
  with assms obtain c r' where sk: "skipWs r1 = c # r'"
    by (cases "skipWs r1") (auto simp: parseElements.simps)
  then have len: "length r' < length r1" by (rule skipWs_Cons_length)
  show ?thesis
  proof (cases "c = 0x2C")
    case True
    with assms pv sk obtain ws where ws: "parseElements n r' = Some (ws, r)" "vs = v # ws"
      by (auto simp: parseElements.simps split: option.splits)
    have "\<forall>m. parseValue m s = Some (v, r1) \<longrightarrow> parseElements m r' = Some (ws, r) \<longrightarrow>
            parseElements (Suc m) s = Some (vs, r)"
      using sk True ws by (simp add: parseElements.simps)
    then show ?thesis using pv len ws by blast
  next
    case False
    with assms pv sk have "c = 0x5D" "vs = [v]" "r = r'"
      by (auto simp: parseElements.simps split: if_splits)
    then have "\<forall>m. parseValue m s = Some (v, r1) \<longrightarrow> parseElements (Suc m) s = Some (vs, r)"
      using sk by (simp add: parseElements.simps)
    then show ?thesis using pv len \<open>r = r'\<close> by blast
  qed
qed

lemma parseMembers_Suc_shape:
  assumes "parseMembers (Suc n) s = Some (ms, r)"
  shows "\<exists>r2 v r3. length r2 < length s \<and> parseValue n r2 = Some (v, r3) \<and>
           ((length r < length r3 \<and>
             (\<forall>m. parseValue m r2 = Some (v, r3) \<longrightarrow> parseMembers (Suc m) s = Some (ms, r)))
          \<or> (\<exists>r4 ms'. length r4 < length r3 \<and> parseMembers n r4 = Some (ms', r) \<and>
                (\<forall>m. parseValue m r2 = Some (v, r3) \<longrightarrow> parseMembers m r4 = Some (ms', r) \<longrightarrow>
                     parseMembers (Suc m) s = Some (ms, r))))"
proof -
  from assms obtain q r0 where sk0: "skipWs s = q # r0"
    by (cases "skipWs s") (auto simp: parseMembers.simps)
  with assms have q: "q = 0x22"
    by (auto simp: parseMembers.simps split: if_splits)
  from assms sk0 q obtain k r1 where pc: "parseChars r0 = Some (k, r1)"
    by (auto simp: parseMembers.simps split: option.splits)
  from assms sk0 q pc obtain colon r2 where sk1: "skipWs r1 = colon # r2"
    by (cases "skipWs r1") (auto simp: parseMembers.simps)
  with assms sk0 q pc have colon: "colon = 0x3A"
    by (auto simp: parseMembers.simps split: if_splits)
  from assms sk0 q pc sk1 colon obtain v r3 where pv: "parseValue n r2 = Some (v, r3)"
    by (auto simp: parseMembers.simps split: option.splits)
  from assms sk0 q pc sk1 colon pv obtain c r4 where sk3: "skipWs r3 = c # r4"
    by (cases "skipWs r3") (auto simp: parseMembers.simps)
  have len2: "length r2 < length s"
    using skipWs_Cons_length [OF sk0] parseChars_consumes [OF pc] skipWs_Cons_length [OF sk1]
    by simp
  have len4: "length r4 < length r3" using sk3 by (rule skipWs_Cons_length)
  show ?thesis
  proof (cases "c = 0x2C")
    case True
    with assms sk0 q pc sk1 colon pv sk3 obtain ms' where
      ms': "parseMembers n r4 = Some (ms', r)" "ms = (k, v) # ms'"
      by (auto simp: parseMembers.simps split: option.splits)
    have "\<forall>m. parseValue m r2 = Some (v, r3) \<longrightarrow> parseMembers m r4 = Some (ms', r) \<longrightarrow>
            parseMembers (Suc m) s = Some (ms, r)"
      using sk0 q pc sk1 colon sk3 True ms' by (simp add: parseMembers.simps)
    then show ?thesis using pv len2 len4 ms' by blast
  next
    case False
    with assms sk0 q pc sk1 colon pv sk3 have "c = 0x7D" "ms = [(k, v)]" "r = r4"
      by (auto simp: parseMembers.simps split: if_splits)
    then have "\<forall>m. parseValue m r2 = Some (v, r3) \<longrightarrow> parseMembers (Suc m) s = Some (ms, r)"
      using sk0 q pc sk1 colon sk3 by (simp add: parseMembers.simps)
    then show ?thesis using pv len2 len4 \<open>r = r4\<close> by blast
  qed
qed

lemma fuel_enough_all:
  "(\<forall>s v r. parseValue n s = Some (v, r) \<longrightarrow>
      length r < length s \<and> (\<forall>m. length s - length r \<le> m \<longrightarrow> parseValue m s = Some (v, r))) \<and>
   (\<forall>s vs r. parseElements n s = Some (vs, r) \<longrightarrow>
      length r < length s \<and> (\<forall>m. length s - length r \<le> m \<longrightarrow> parseElements m s = Some (vs, r))) \<and>
   (\<forall>s ms r. parseMembers n s = Some (ms, r) \<longrightarrow>
      length r < length s \<and> (\<forall>m. length s - length r \<le> m \<longrightarrow> parseMembers m s = Some (ms, r)))"
proof (induction n)
  case 0
  show ?case by (simp add: parseValue.simps parseElements.simps parseMembers.simps)
next
  case (Suc n)
  then have ihV: "\<And>s v r. parseValue n s = Some (v, r) \<Longrightarrow>
      length r < length s \<and> (\<forall>m. length s - length r \<le> m \<longrightarrow> parseValue m s = Some (v, r))"
    and ihE: "\<And>s vs r. parseElements n s = Some (vs, r) \<Longrightarrow>
      length r < length s \<and> (\<forall>m. length s - length r \<le> m \<longrightarrow> parseElements m s = Some (vs, r))"
    and ihM: "\<And>s ms r. parseMembers n s = Some (ms, r) \<Longrightarrow>
      length r < length s \<and> (\<forall>m. length s - length r \<le> m \<longrightarrow> parseMembers m s = Some (ms, r))"
    by blast+
  have V: "length r < length s \<and> (\<forall>m. length s - length r \<le> m \<longrightarrow> parseValue m s = Some (v, r))"
    if pv: "parseValue (Suc n) s = Some (v, r)" for s v r
  proof -
    from parseValue_Suc_shape [OF pv]
    consider (atom) "\<forall>m. parseValue (Suc m) s = Some (v, r)" "length r < length s"
      | (array) rest vs where "length rest < length s" "parseElements n rest = Some (vs, r)"
          "\<forall>m. parseElements m rest = Some (vs, r) \<longrightarrow> parseValue (Suc m) s = Some (v, r)"
      | (object) rest ms where "length rest < length s" "parseMembers n rest = Some (ms, r)"
          "\<forall>m. parseMembers m rest = Some (ms, r) \<longrightarrow> parseValue (Suc m) s = Some (v, r)"
      by blast
    then show ?thesis
    proof cases
      case atom
      have "parseValue m s = Some (v, r)" if "length s - length r \<le> m" for m
        using that atom by (cases m) auto
      with atom show ?thesis by blast
    next
      case array
      from ihE [OF array(2)] have l: "length r < length rest"
        and e: "\<And>m. length rest - length r \<le> m \<Longrightarrow> parseElements m rest = Some (vs, r)"
        by blast+
      have "parseValue m s = Some (v, r)" if "length s - length r \<le> m" for m
      proof (cases m)
        case 0
        with that l array(1) show ?thesis by simp
      next
        case (Suc k)
        with that l array(1) have "length rest - length r \<le> k" by simp
        with e array(3) Suc show ?thesis by blast
      qed
      with l array(1) show ?thesis by simp
    next
      case object
      from ihM [OF object(2)] have l: "length r < length rest"
        and e: "\<And>m. length rest - length r \<le> m \<Longrightarrow> parseMembers m rest = Some (ms, r)"
        by blast+
      have "parseValue m s = Some (v, r)" if "length s - length r \<le> m" for m
      proof (cases m)
        case 0
        with that l object(1) show ?thesis by simp
      next
        case (Suc k)
        with that l object(1) have "length rest - length r \<le> k" by simp
        with e object(3) Suc show ?thesis by blast
      qed
      with l object(1) show ?thesis by simp
    qed
  qed
  have E: "length r < length s \<and> (\<forall>m. length s - length r \<le> m \<longrightarrow> parseElements m s = Some (vs, r))"
    if pe: "parseElements (Suc n) s = Some (vs, r)" for s vs r
  proof -
    from parseElements_Suc_shape [OF pe] obtain v r1 where pv: "parseValue n s = Some (v, r1)"
      and alt: "(length r < length r1 \<and>
             (\<forall>m. parseValue m s = Some (v, r1) \<longrightarrow> parseElements (Suc m) s = Some (vs, r)))
          \<or> (\<exists>r' ws. length r' < length r1 \<and> parseElements n r' = Some (ws, r) \<and>
                (\<forall>m. parseValue m s = Some (v, r1) \<longrightarrow> parseElements m r' = Some (ws, r) \<longrightarrow>
                     parseElements (Suc m) s = Some (vs, r)))"
      by blast
    from ihV [OF pv] have l1: "length r1 < length s"
      and v: "\<And>m. length s - length r1 \<le> m \<Longrightarrow> parseValue m s = Some (v, r1)"
      by blast+
    from alt show ?thesis
    proof
      assume a: "length r < length r1 \<and>
             (\<forall>m. parseValue m s = Some (v, r1) \<longrightarrow> parseElements (Suc m) s = Some (vs, r))"
      have "parseElements m s = Some (vs, r)" if "length s - length r \<le> m" for m
      proof (cases m)
        case 0
        with that a l1 show ?thesis by auto
      next
        case (Suc k)
        with that a l1 have "length s - length r1 \<le> k" by auto
        with v a Suc show ?thesis by blast
      qed
      with a l1 show ?thesis by auto
    next
      assume "\<exists>r' ws. length r' < length r1 \<and> parseElements n r' = Some (ws, r) \<and>
                (\<forall>m. parseValue m s = Some (v, r1) \<longrightarrow> parseElements m r' = Some (ws, r) \<longrightarrow>
                     parseElements (Suc m) s = Some (vs, r))"
      then obtain r' ws where l': "length r' < length r1" and pe': "parseElements n r' = Some (ws, r)"
        and step: "\<And>m. parseValue m s = Some (v, r1) \<Longrightarrow> parseElements m r' = Some (ws, r) \<Longrightarrow>
                     parseElements (Suc m) s = Some (vs, r)"
        by blast
      from ihE [OF pe'] have l: "length r < length r'"
        and e: "\<And>m. length r' - length r \<le> m \<Longrightarrow> parseElements m r' = Some (ws, r)"
        by blast+
      have "parseElements m s = Some (vs, r)" if "length s - length r \<le> m" for m
      proof (cases m)
        case 0
        with that l l' l1 show ?thesis by simp
      next
        case (Suc k)
        with that l l' l1 have "length s - length r1 \<le> k" "length r' - length r \<le> k" by simp_all
        with v e step Suc show ?thesis by blast
      qed
      with l l' l1 show ?thesis by simp
    qed
  qed
  have M: "length r < length s \<and> (\<forall>m. length s - length r \<le> m \<longrightarrow> parseMembers m s = Some (ms, r))"
    if pm: "parseMembers (Suc n) s = Some (ms, r)" for s ms r
  proof -
    from parseMembers_Suc_shape [OF pm] obtain r2 v r3 where l2: "length r2 < length s"
      and pv: "parseValue n r2 = Some (v, r3)"
      and alt: "(length r < length r3 \<and>
             (\<forall>m. parseValue m r2 = Some (v, r3) \<longrightarrow> parseMembers (Suc m) s = Some (ms, r)))
          \<or> (\<exists>r4 ms'. length r4 < length r3 \<and> parseMembers n r4 = Some (ms', r) \<and>
                (\<forall>m. parseValue m r2 = Some (v, r3) \<longrightarrow> parseMembers m r4 = Some (ms', r) \<longrightarrow>
                     parseMembers (Suc m) s = Some (ms, r)))"
      by blast
    from ihV [OF pv] have l3: "length r3 < length r2"
      and v: "\<And>m. length r2 - length r3 \<le> m \<Longrightarrow> parseValue m r2 = Some (v, r3)"
      by blast+
    from alt show ?thesis
    proof
      assume a: "length r < length r3 \<and>
             (\<forall>m. parseValue m r2 = Some (v, r3) \<longrightarrow> parseMembers (Suc m) s = Some (ms, r))"
      have "parseMembers m s = Some (ms, r)" if "length s - length r \<le> m" for m
      proof (cases m)
        case 0
        with that a l2 l3 show ?thesis by auto
      next
        case (Suc k)
        with that a l2 l3 have "length r2 - length r3 \<le> k" by auto
        with v a Suc show ?thesis by blast
      qed
      with a l2 l3 show ?thesis by auto
    next
      assume "\<exists>r4 ms'. length r4 < length r3 \<and> parseMembers n r4 = Some (ms', r) \<and>
                (\<forall>m. parseValue m r2 = Some (v, r3) \<longrightarrow> parseMembers m r4 = Some (ms', r) \<longrightarrow>
                     parseMembers (Suc m) s = Some (ms, r))"
      then obtain r4 ms' where l4: "length r4 < length r3" and pm': "parseMembers n r4 = Some (ms', r)"
        and step: "\<And>m. parseValue m r2 = Some (v, r3) \<Longrightarrow> parseMembers m r4 = Some (ms', r) \<Longrightarrow>
                     parseMembers (Suc m) s = Some (ms, r)"
        by blast
      from ihM [OF pm'] have l: "length r < length r4"
        and e: "\<And>m. length r4 - length r \<le> m \<Longrightarrow> parseMembers m r4 = Some (ms', r)"
        by blast+
      have "parseMembers m s = Some (ms, r)" if "length s - length r \<le> m" for m
      proof (cases m)
        case 0
        with that l l4 l3 l2 show ?thesis by simp
      next
        case (Suc k)
        with that l l4 l3 l2 have "length r2 - length r3 \<le> k" "length r4 - length r \<le> k" by simp_all
        with v e step Suc show ?thesis by blast
      qed
      with l l4 l3 l2 show ?thesis by simp
    qed
  qed
  from V E M show ?case by blast
qed

lemma fuel_enough:
  assumes "parseValue n s = Some (v, r)" "length s \<le> m"
  shows "parseValue m s = Some (v, r)"
proof -
  from fuel_enough_all [of n] assms(1)
  have "\<forall>m. length s - length r \<le> m \<longrightarrow> parseValue m s = Some (v, r)" by blast
  moreover have "length s - length r \<le> m" using assms(2) by simp
  ultimately show ?thesis by blast
qed

lemma parseValue_fuel_independent:
  assumes "length s \<le> m"
  shows "parseValue m s = parseValue (length s) s"
proof (cases "parseValue (length s) s")
  case (Some x)
  then show ?thesis using fuel_enough [of "length s" s "fst x" "snd x" m] assms by simp
next
  case None
  show ?thesis
  proof (cases "parseValue m s")
    case None
    with \<open>parseValue (length s) s = None\<close> show ?thesis by simp
  next
    case (Some x)
    then have "parseValue (length s) s = Some x"
      using fuel_enough [of m s "fst x" "snd x" "length s"] by simp
    with None show ?thesis by simp
  qed
qed

section \<open>Saving and loading the collection\<close>

lemma those_map_Some: "those (map Some xs) = Some xs"
  by (induction xs) auto

lemma commentFromJson_inverse: "commentFromJson (commentToJson c) = Some c"
  by (simp add: commentFromJson_def commentToJson_def stringProperty_def property_def js_def)

lemma commentsFromJson_inverse: "commentsFromJson (JArray (map commentToJson cs)) = Some cs"
  by (simp add: commentsFromJson_def comp_def those_map_Some commentFromJson_inverse)

lemma issueFromJson_inverse: "issueFromJson (issueToJson i) = Some i"
proof -
  have c: "property ''comments'' (issueToJson i) = Some (JArray (map commentToJson (comments i)))"
    by (simp add: issueToJson_def property_def js_def)
  have s: "stringProperty ''id'' (issueToJson i) = Some (issue_id i)"
    "stringProperty ''title'' (issueToJson i) = Some (title i)"
    "stringProperty ''description'' (issueToJson i) = Some (description i)"
    "stringProperty ''category'' (issueToJson i) = Some (category i)"
    "stringProperty ''status'' (issueToJson i) = Some (status i)"
    "stringProperty ''createdAt'' (issueToJson i) = Some (createdAt i)"
    "stringProperty ''reporterRole'' (issueToJson i) = Some (reporterRole i)"
    by (simp_all add: issueToJson_def stringProperty_def property_def js_def)
  show ?thesis
    by (simp add: issueFromJson_def c s commentsFromJson_inverse)
qed

lemma issuesFromJson_inverse: "issuesFromJson (issuesToJson collection) = Some collection"
  by (simp add: issuesFromJson_def issuesToJson_def comp_def those_map_Some issueFromJson_inverse)

lemma numberFree_issuesToJson: "numberFree (issuesToJson collection)"
  by (simp add: issuesToJson_def issueToJson_def commentToJson_def list_all_iff)

text \<open>
  C4. Whatever the collection and whatever the store held before, loading after saving
  parses the stored text back to the JSON value of the collection, and that value
  reads back as the same list of issues: same order, same fields, comments included.
\<close>

theorem save_load_roundtrip:
  "load (save st store) = Parsed (issuesToJson (issues st)) \<and>
   issuesFromJson (issuesToJson (issues st)) = Some (issues st)"
proof
  have "stringify (issuesToJson (issues st)) \<noteq> []"
    by (simp add: issuesToJson_def)
  then show "load (save st store) = Parsed (issuesToJson (issues st))"
    by (simp add: load_def save_def JSON_parse_stringify numberFree_issuesToJson)
  show "issuesFromJson (issuesToJson (issues st)) = Some (issues st)"
    by (rule issuesFromJson_inverse)
qed

theorem save_load_roundtrip_witness:
  "load (save board Map.empty) = Parsed (issuesToJson [waterNotice, pothole]) \<and>
   issuesFromJson (issuesToJson [waterNotice, pothole]) = Some [waterNotice, pothole]"
  using save_load_roundtrip [of board Map.empty] by (simp add: board_def)

section \<open>Loading a snapshot that is absent or not JSON\<close>

theorem corrupt_snapshot_counterexample:
  \<open>truncatedSnapshot storageKey = Some (js ''[{"id":"1700000000000","title":"Poth'') \<and>
   load truncatedSnapshot = SyntaxError\<close>
  by (simp add: truncatedSnapshot_def load_def JSON_parse_def js_def parseValue.simps
      parseElements.simps parseMembers.simps parseChars.simps consChar_def skipWs_def isJsonSpace_def)

text \<open>
  C2, as the code has it. When nothing is stored under the key, or the stored text is
  empty, \<open>load\<close> does not call \<open>setIssues\<close> and the collection stays the initial empty
  one. A stored text that \<open>JSON.parse\<close> accepts becomes the collection; in particular the
  text that \<open>save\<close> wrote gives the saved collection. A stored text that
  \<open>JSON.parse\<close> rejects makes \<open>load\<close> throw the parser's \<open>SyntaxError\<close>: nothing catches it.
\<close>

theorem load_outcomes:
  "(store storageKey = None \<or> store storageKey = Some [] \<longrightarrow> load store = NoSnapshot) \<and>
   (\<forall>saved. store storageKey = Some saved \<and> saved \<noteq> [] \<and> JSON_parse saved = None \<longrightarrow>
      load store = SyntaxError) \<and>
   (\<forall>saved v. store storageKey = Some saved \<and> saved \<noteq> [] \<and> JSON_parse saved = Some v \<longrightarrow>
      load store = Parsed v) \<and>
   (\<forall>st. store storageKey = Some (stringify (issuesToJson (issues st))) \<longrightarrow>
      load store = Parsed (issuesToJson (issues st)))"
proof (intro conjI allI impI)
  assume "store storageKey = None \<or> store storageKey = Some []"
  then show "load store = NoSnapshot" by (auto simp: load_def)
next
  fix saved assume "store storageKey = Some saved \<and> saved \<noteq> [] \<and> JSON_parse saved = None"
  then show "load store = SyntaxError" by (simp add: load_def)
next
  fix saved v assume "store storageKey = Some saved \<and> saved \<noteq> [] \<and> JSON_parse saved = Some v"
  then show "load store = Parsed v" by (simp add: load_def)
next
  fix st assume a: "store storageKey = Some (stringify (issuesToJson (issues st)))"
  have "stringify (issuesToJson (issues st)) \<noteq> []" by (simp add: issuesToJson_def)
  with a show "load store = Parsed (issuesToJson (issues st))"
    by (simp add: load_def JSON_parse_stringify numberFree_issuesToJson)
qed

theorem load_outcomes_witness:
  "load Map.empty = NoSnapshot \<and>
   load (save board Map.empty) = Parsed (issuesToJson (issues board)) \<and>
   load undefinedSnapshot = SyntaxError"
proof -
  have a: "(Map.empty :: storage) storageKey = None" by simp
  have b: "save board Map.empty storageKey = Some (stringify (issuesToJson (issues board)))"
    by (simp add: save_def)
  have c: "undefinedSnapshot storageKey = Some (js ''undefined'') \<and> js ''undefined'' \<noteq> [] \<and>
           JSON_parse (js ''undefined'') = None"
    by (simp add: undefinedSnapshot_def JSON_parse_def js_def parseValue.simps skipWs_def
        isJsonSpace_def parseNumber_def parseIntegerPart_def isDigit_def)
  from load_outcomes [of Map.empty] load_outcomes [of "save board Map.empty"]
       load_outcomes [of undefinedSnapshot] a b c
  show ?thesis by blast
qed

end
